theory Spec2Isabelle
  imports Main
begin

section \<open>The npm module fetcher of the sandbox (fetch-npm-module.ts)\<close>

text \<open>
  A shallow embedding of \<^verbatim>\<open>packages/app/src/sandbox/eval/npm/fetch-npm-module.ts\<close>.
  Strings are \<open>string\<close>; every \<^verbatim>\<open>throw\<close> and every rejected promise is a value
  \<open>Inl e\<close> of a sum type; the module-level caches are fields of an explicit store.
\<close>

subsection \<open>Errors, backends and the parts imported from other packages\<close>

datatype error =
    TypeError
  | CouldNotFetchUrl string
  | CouldNotFetch
  | ENOENT string
  | ModuleNotFound string
  | DependencyNotFoundError string
  | SyntaxError
  | DoesNotWorkOnJsdelivr
  | NetworkError

text \<open>The four entries of \<^verbatim>\<open>urlProtocols\<close>.\<close>

datatype protocol = csbGH | unpkg | jsDelivrNPM | jsDelivrGH

text \<open>
  The file imports \<^verbatim>\<open>CSB_PKG_PROTOCOL\<close> (a regular expression of
  \<^verbatim>\<open>@codesandbox/common/es/utils/ci\<close>), \<^verbatim>\<open>pathUtils\<close> and \<^verbatim>\<open>getDependencyName\<close>.
  Their code is not part of the sources, so every function that uses one of them takes
  it from this record: \<open>CSB_PKG_PROTOCOL x v\<close> is \<^verbatim>\<open>CSB_PKG_PROTOCOL.test(v)\<close>,
  \<open>join x [a, b]\<close> is \<^verbatim>\<open>pathUtils.join(a, b)\<close>.
\<close>

record externals =
  CSB_PKG_PROTOCOL :: "string \<Rightarrow> bool"
  join :: "string list \<Rightarrow> string"
  dirname :: "string \<Rightarrow> string"
  getDependencyName :: "string \<Rightarrow> string"

subsection \<open>Character classes of the regular expressions\<close>

definition isDigit :: "char \<Rightarrow> bool" where
  "isDigit c = (c \<in> set ''0123456789'')"

text \<open>\<^verbatim>\<open>\w\<close>: letters, digits and the underscore.\<close>

definition isWordChar :: "char \<Rightarrow> bool" where
  "isWordChar c =
     (c \<in> set ''abcdefghijklmnopqrstuvwxyzABCDEFGHIJKLMNOPQRSTUVWXYZ0123456789_'')"

text \<open>The dot of a regular expression matches every character but a line terminator.\<close>

definition isLineTerminator :: "char \<Rightarrow> bool" where
  "isLineTerminator c = (c = CHR 0x0A \<or> c = CHR 0x0D)"

subsection \<open>getFetchProtocol\<close>

definition getFetchProtocol :: "externals \<Rightarrow> string \<Rightarrow> bool \<Rightarrow> protocol" where
  "getFetchProtocol x depVersion useFallback =
     (let isDraftProtocol = CSB_PKG_PROTOCOL x depVersion in
      if isDraftProtocol then csbGH
      else
        let isGitHub = (CHR ''/'' \<in> set depVersion) in
        if isGitHub then jsDelivrGH
        else if useFallback then unpkg else jsDelivrNPM)"

subsection \<open>resolveNPMAlias\<close>

text \<open>
  \<open>splitLastAt s\<close> cuts \<open>s\<close> at its last \<open>@\<close> that has a character after it: the
  greedy \<^verbatim>\<open>(.+)@(.+)\<close> on a string without line terminators, but for the check that
  the first group is not empty.
\<close>

fun splitLastAt :: "string \<Rightarrow> (string \<times> string) option" where
  "splitLastAt [] = None"
| "splitLastAt (c # cs) =
     (case splitLastAt cs of
        Some (a, b) \<Rightarrow> Some (c # a, b)
      | None \<Rightarrow> if c = CHR ''@'' \<and> cs \<noteq> [] then Some ([], cs) else None)"

text \<open>
  \<^verbatim>\<open>version.match(/^npm:(.+)@(.+)/)\<close>: the two groups, or \<open>None\<close> for \<^verbatim>\<open>null\<close>.
  Both groups lie on the first line of what follows \<^verbatim>\<open>npm:\<close>, since the dot does
  not match a line terminator and the first group starts right after the colon.
\<close>

definition matchAlias :: "string \<Rightarrow> (string \<times> string) option" where
  "matchAlias version =
     (if take 4 version = ''npm:'' then
        (case splitLastAt (takeWhile (\<lambda>c. \<not> isLineTerminator c) (drop 4 version)) of
           Some (a, b) \<Rightarrow> if a = [] then None else Some (a, b)
         | None \<Rightarrow> None)
      else None)"

text \<open>
  \<^verbatim>\<open>parts[1]\<close> on a \<^verbatim>\<open>null\<close> match throws a TypeError.
\<close>

definition resolveNPMAlias :: "string \<Rightarrow> string \<Rightarrow> error + (string \<times> string)" where
  "resolveNPMAlias name version =
     (if take 4 version \<noteq> ''npm:'' then Inr (name, version)
      else
        (case matchAlias version of
           None \<Rightarrow> Inl TypeError
         | Some (p1, p2) \<Rightarrow> Inr (p1, p2)))"

subsection \<open>ALIAS_REGEX\<close>

text \<open>
  \<^verbatim>\<open>ALIAS_REGEX = /\/\d*\.\d*\.\d*.*?(\/|$)/\<close>. \<open>aliasTail r\<close> matches what follows the
  leading slash at the start of \<open>r\<close> and returns the text left after the match: digits,
  a dot, digits, a dot, digits, then as few characters as possible up to and including
  the next slash, or up to the end of the input.
\<close>

definition aliasTail :: "string \<Rightarrow> string option" where
  "aliasTail r =
     (let r1 = dropWhile isDigit r in
      if r1 = [] \<or> hd r1 \<noteq> CHR ''.'' then None
      else
        let r2 = dropWhile isDigit (tl r1) in
        if r2 = [] \<or> hd r2 \<noteq> CHR ''.'' then None
        else
          let r3 = dropWhile isDigit (tl r2);
              post = dropWhile (\<lambda>c. c \<noteq> CHR ''/'' \<and> \<not> isLineTerminator c) r3
          in if post = [] then Some []
             else if hd post = CHR ''/'' then Some (tl post)
             else None)"

text \<open>\<^verbatim>\<open>depName.replace(ALIAS_REGEX, '')\<close>: the leftmost match is removed.\<close>

fun stripAlias :: "string \<Rightarrow> string" where
  "stripAlias [] = []"
| "stripAlias (c # cs) =
     (if c = CHR ''/'' then
        (case aliasTail cs of
           Some rest \<Rightarrow> rest
         | None \<Rightarrow> c # stripAlias cs)
      else c # stripAlias cs)"

subsection \<open>Metadata documents and their normalizers\<close>

text \<open>
  \<^verbatim>\<open>MetaFiles\<close>: the nested listing, an array of entries with a path, a type and,
  for a directory, the entries below it. The flat listing is an array of entries with
  a name. \<^verbatim>\<open>Meta\<close>, the normalized listing, maps each absolute path to \<^verbatim>\<open>true\<close>.
\<close>

datatype fileType = TypeFile | TypeDirectory

datatype metaFile =
  MetaFile (mf_path: string) (mf_type: fileType) (mf_files: "metaFile list option")

datatype flatFile = FlatFile (ff_name: string)

type_synonym Meta = "string \<rightharpoonup> bool"

text \<open>
  \<^verbatim>\<open>normalize\<close> (here \<open>normalizeFiles\<close>): an entry of type file is entered under
  the root path followed by its path, and an entry that has a \<^verbatim>\<open>files\<close> array is
  descended into, with the same root path and the same object.
\<close>

fun normalizeFiles :: "metaFile list \<Rightarrow> Meta \<Rightarrow> string \<Rightarrow> Meta"
  and normalizeEntry :: "metaFile \<Rightarrow> Meta \<Rightarrow> string \<Rightarrow> Meta" where
  "normalizeFiles [] fileObject rootPath = fileObject"
| "normalizeFiles (f # fs) fileObject rootPath =
     normalizeFiles fs (normalizeEntry f fileObject rootPath) rootPath"
| "normalizeEntry (MetaFile p t sub) fileObject rootPath =
     (case sub of
        Some fs \<Rightarrow>
          normalizeFiles fs
            (if t = TypeFile then fileObject(rootPath @ p \<mapsto> True) else fileObject) rootPath
      | None \<Rightarrow>
          (if t = TypeFile then fileObject(rootPath @ p \<mapsto> True) else fileObject))"

fun normalizeJSDelivr :: "externals \<Rightarrow> flatFile list \<Rightarrow> Meta \<Rightarrow> string \<Rightarrow> Meta" where
  "normalizeJSDelivr x [] fileObject rootPath = fileObject"
| "normalizeJSDelivr x (f # fs) fileObject rootPath =
     normalizeJSDelivr x fs (fileObject(join x [rootPath, ff_name f] \<mapsto> True)) rootPath"


subsection \<open>A model of pathUtils\<close>

text \<open>
  Modelled from the spec: \<^verbatim>\<open>pathUtils.join\<close> and \<^verbatim>\<open>pathUtils.dirname\<close>
  (\<^verbatim>\<open>@codesandbox/common/es/utils/path\<close>) and \<^verbatim>\<open>getDependencyName\<close> are not among the
  sources. The spec shows what they return: a dependency's virtual root is
  \<^verbatim>\<open>/node_modules/<name>\<close>, its root manifest \<^verbatim>\<open>/node_modules/<name>/package.json\<close>,
  the package root is the directory of the manifest path, and the dependency name is
  taken from the path after its last module-lookup directory. The model is the POSIX
  one: the non-empty segments are joined by a slash and the result is normalized
  (empty and \<open>.\<close> segments dropped, \<open>..\<close> resolved, a trailing slash kept).
\<close>

fun splitSlash :: "string \<Rightarrow> string list" where
  "splitSlash [] = [[]]"
| "splitSlash (c # cs) =
     (if c = CHR ''/'' then [] # splitSlash cs
      else (case splitSlash cs of
              [] \<Rightarrow> [[c]]
            | p # ps \<Rightarrow> (c # p) # ps))"

fun joinSlash :: "string list \<Rightarrow> string" where
  "joinSlash [] = []"
| "joinSlash [p] = p"
| "joinSlash (p # q # ps) = p @ ''/'' @ joinSlash (q # ps)"

fun normalizeArray :: "string list \<Rightarrow> bool \<Rightarrow> string list \<Rightarrow> string list" where
  "normalizeArray [] allowAboveRoot res = res"
| "normalizeArray (p # parts) allowAboveRoot res =
     (if p = [] \<or> p = ''.'' then normalizeArray parts allowAboveRoot res
      else if p = ''..'' then
        (if res \<noteq> [] \<and> last res \<noteq> ''..''
         then normalizeArray parts allowAboveRoot (butlast res)
         else if allowAboveRoot then normalizeArray parts allowAboveRoot (res @ [''..''])
         else normalizeArray parts allowAboveRoot res)
      else normalizeArray parts allowAboveRoot (res @ [p]))"

definition posixNormalize :: "string \<Rightarrow> string" where
  "posixNormalize path =
     (let isAbsolute = (path \<noteq> [] \<and> hd path = CHR ''/'');
          trailingSlash = (path \<noteq> [] \<and> last path = CHR ''/'');
          newPath = joinSlash (normalizeArray (splitSlash path) (\<not> isAbsolute) []);
          newPath1 = (if newPath = [] \<and> \<not> isAbsolute then ''.'' else newPath);
          newPath2 = (if newPath1 \<noteq> [] \<and> trailingSlash then newPath1 @ ''/'' else newPath1)
      in (if isAbsolute then ''/'' else []) @ newPath2)"

definition posixJoin :: "string list \<Rightarrow> string" where
  "posixJoin paths = posixNormalize (joinSlash (filter (\<lambda>p. p \<noteq> []) paths))"

text \<open>
  The directory of a path: trailing slashes and the last segment are dropped, then one
  slash; \<open>.\<close> for a path without a directory.
\<close>

definition posixDirname :: "string \<Rightarrow> string" where
  "posixDirname path =
     (let root = (if path \<noteq> [] \<and> hd path = CHR ''/'' then ''/'' else []);
          rest = drop (length root) path;
          stem = rev (dropWhile (\<lambda>c. c = CHR ''/'') (rev rest));
          dir = rev (dropWhile (\<lambda>c. c \<noteq> CHR ''/'') (rev stem))
      in if root = [] \<and> dir = [] then ''.''
         else root @ butlast dir)"

text \<open>The first segment of the path, the first two for a scoped package.\<close>

definition firstSegments :: "string \<Rightarrow> string" where
  "firstSegments path =
     (let parts = splitSlash path in
      if path \<noteq> [] \<and> hd path = CHR ''@'' then joinSlash (take 2 parts)
      else hd parts)"

text \<open>
  The instance on which the functions are evaluated. Its draft pattern holds of the
  versions that start with \<^verbatim>\<open>https://pkg.csb.dev\<close>; nothing proved below depends on
  that choice but the evaluations that name this instance.
\<close>

definition posix :: externals where
  "posix = \<lparr> CSB_PKG_PROTOCOL = (\<lambda>v. take 19 v = ''https://pkg.csb.dev''),
             join = posixJoin,
             dirname = posixDirname,
             getDependencyName = firstSegments \<rparr>"

subsection \<open>fetchWithRetries\<close>

text \<open>
  Time is the reading of \<^verbatim>\<open>Date.now()\<close>, an integer of milliseconds. It passes while
  \<^verbatim>\<open>delay\<close> sleeps and while a request is under way; how long is for the environment to
  say, attempt by attempt: \<open>overshoot\<close> is what \<^verbatim>\<open>delay(d)\<close> sleeps beyond \<open>d\<close>,
  \<open>duration\<close> how long \<^verbatim>\<open>window.fetch\<close> takes, \<open>result\<close> what it settles to.

  Modelled from the spec: \<^verbatim>\<open>delay\<close> (\<^verbatim>\<open>sandbox/utils/delay\<close>) is not among the
  sources; the spec has the function wait until the time asked for has elapsed, so
  \<^verbatim>\<open>delay(d)\<close> takes \<open>d\<close> milliseconds or more.
\<close>

datatype response = Response (ok: bool) (body: string)

record attempt =
  overshoot :: nat
  duration :: nat
  result :: "error + response"

text \<open>\<^verbatim>\<open>doFetch\<close>: a response that is not ok is an error.\<close>

definition doFetch :: "string \<Rightarrow> error + response \<Rightarrow> error + response" where
  "doFetch url r =
     (case r of
        Inl e \<Rightarrow> Inl e
      | Inr x \<Rightarrow> if ok x then Inr x else Inl (CouldNotFetchUrl url))"

text \<open>
  The loop of \<^verbatim>\<open>fetchWithRetries\<close>, from iteration \<open>i\<close> on. It returns what the function
  returns or throws, the times at which the attempts started (the values given to
  \<^verbatim>\<open>lastTryTime\<close>) and the time at which it ends.
\<close>

function fetchLoop ::
  "string \<Rightarrow> nat \<Rightarrow> (nat \<Rightarrow> attempt) \<Rightarrow> nat \<Rightarrow> int \<Rightarrow> int \<Rightarrow> int list \<Rightarrow>
     (error + response) \<times> int list \<times> int" where
  "fetchLoop url retries env i lastTryTime now starts =
     (if i < retries then
        let now1 = (if now - lastTryTime < 3000
                    then now + (3000 - (now - lastTryTime)) + int (overshoot (env i))
                    else now);
            now2 = now1 + int (duration (env i))
        in case doFetch url (result (env i)) of
             Inr x \<Rightarrow> (Inr x, starts @ [now1], now2)
           | Inl e \<Rightarrow>
               if i = retries - 1 then (Inl e, starts @ [now1], now2)
               else fetchLoop url retries env (i + 1) now1 now2 (starts @ [now1])
      else (Inl CouldNotFetch, starts, now))"
  by pat_completeness auto
termination
  by (relation "measure (\<lambda>(url, retries, env, i, lastTryTime, now, starts). retries - i)") auto

definition fetchWithRetries ::
  "string \<Rightarrow> nat \<Rightarrow> (nat \<Rightarrow> attempt) \<Rightarrow> int \<Rightarrow> (error + response) \<times> int list \<times> int" where
  "fetchWithRetries url retries env now = fetchLoop url retries env 0 0 now []"

definition defaultRetries :: nat where
  "defaultRetries = 6"

text \<open>
  The start times the loop produces when the next \<open>n\<close> attempts all fail: each is the
  previous start plus 3000 and the overshoot of the sleep, or the end of the previous
  attempt when that is already 3000 or more after its start.
\<close>

fun startTimes :: "(nat \<Rightarrow> attempt) \<Rightarrow> nat \<Rightarrow> int \<Rightarrow> int \<Rightarrow> nat \<Rightarrow> int list" where
  "startTimes env i lastTryTime now 0 = []"
| "startTimes env i lastTryTime now (Suc n) =
     (let now1 = (if now - lastTryTime < 3000
                  then lastTryTime + 3000 + int (overshoot (env i))
                  else now)
      in now1 # startTimes env (i + 1) now1 (now1 + int (duration (env i))) n)"

text \<open>An endpoint that answers every request with a response that is not ok.\<close>

definition failingEndpoint :: "nat \<Rightarrow> attempt" where
  "failingEndpoint k =
     \<lparr> overshoot = 2,
       duration = (if k = 2 then 4000 else 10),
       result = Inr (Response False ''Not Found'') \<rparr>"

subsection \<open>Modules, promises and the module-level caches\<close>

text \<open>
  A \<^verbatim>\<open>Module\<close> as this file builds it: a download has a path, the code and
  \<^verbatim>\<open>downloaded: true\<close>; a stub has a path, the code, an empty \<^verbatim>\<open>requires\<close> and
  \<^verbatim>\<open>stubbed: true\<close>. A field the object literal leaves out is \<open>None\<close>.
\<close>

record module =
  m_path :: string
  m_code :: string
  m_requires :: "string list option"
  m_stubbed :: "bool option"
  m_downloaded :: "bool option"

text \<open>
  A promise is an object of the heap, named by its handle, so that two calls can be
  seen to return the same promise. Its state changes once, from pending.
\<close>

type_synonym handle = nat

datatype 'a promise = Pending | Fulfilled 'a | Rejected error

text \<open>The \<^verbatim>\<open>files\<close> of a metadata document, in the shape of the backend that sent it.\<close>

datatype metaFiles = Nested "metaFile list" | Flat "flatFile list"

text \<open>
  What a pending download still has to do: \<^verbatim>\<open>Primary\<close> while the request to the
  first backend is under way, \<^verbatim>\<open>Fallback\<close> once the \<^verbatim>\<open>catch\<close> handler has sent the
  second request.
\<close>

datatype stage = Primary | Fallback

record fileChain =
  fc_path :: string
  fc_name :: string
  fc_version :: string
  fc_stage :: stage

text \<open>
  A request, recorded when it is sent, by the backend and the arguments its URL is
  built from: the request for a metadata document (\<^verbatim>\<open>fetchWithRetries\<close> of the URL
  that \<^verbatim>\<open>protocol.meta\<close> resolved to), with the handle of the promise whose chain sends
  it; the lookup of the latest commit that \<^verbatim>\<open>jsDelivrGH.meta\<close> starts with; the request
  for a file (\<^verbatim>\<open>nameWithoutAlias\<close>, \<^verbatim>\<open>depVersion\<close> and the path that \<^verbatim>\<open>relativePath\<close>
  is cut from).
\<close>

datatype request =
    MetaRequest handle protocol string string
  | ShaRequest handle string
  | FileRequest protocol string string string

text \<open>
  What the chain of a metadata promise is waiting for. \<^verbatim>\<open>protocol.meta\<close> is an async
  function, and the request for the document is sent by \<^verbatim>\<open>.then(fetchWithRetries)\<close>
  once it has resolved to the URL:
  \<^item> \<open>AwaitingManifest name p\<close>: \<^verbatim>\<open>jsDelivrNPM.meta\<close> awaits the download \<open>p\<close> of
    \<^verbatim>\<open>/package.json\<close> to read the version from (\<open>Inl\<close> when the call of
    \<^verbatim>\<open>downloadDependency\<close> threw);
  \<^item> \<open>AwaitingSha name version\<close>: \<^verbatim>\<open>jsDelivrGH.meta\<close> awaits the latest commit;
  \<^item> \<open>Requested\<close>: the request for the document has been sent.
\<close>

datatype metaStage =
    AwaitingManifest string "error + handle"
  | AwaitingSha string string
  | Requested

text \<open>
  The module-level state: \<^verbatim>\<open>metas\<close>, \<^verbatim>\<open>packages\<close>, \<^verbatim>\<open>normalizedMetas\<close> and
  \<^verbatim>\<open>combinedMetas\<close>, the promises they hold, and the requests sent so far.
  \<open>metaIds s h\<close> is the \<^verbatim>\<open>id\<close> that the \<^verbatim>\<open>catch\<close> handler of the promise \<open>h\<close>
  deletes from \<^verbatim>\<open>metas\<close>.
\<close>

record store =
  metas :: "string \<rightharpoonup> handle"
  packages :: "string \<rightharpoonup> handle"
  normalizedMetas :: "string \<rightharpoonup> Meta"
  combinedMetas :: Meta
  metaPromises :: "handle \<rightharpoonup> metaFiles promise"
  metaIds :: "handle \<rightharpoonup> string"
  metaStages :: "handle \<rightharpoonup> metaStage"
  packagePromises :: "handle \<rightharpoonup> module promise"
  fileChains :: "handle \<rightharpoonup> fileChain"
  requests :: "request list"
  nextHandle :: handle

definition emptyStore :: store where
  "emptyStore =
     \<lparr> metas = Map.empty, packages = Map.empty, normalizedMetas = Map.empty,
       combinedMetas = Map.empty, metaPromises = Map.empty, metaIds = Map.empty,
       metaStages = Map.empty, packagePromises = Map.empty, fileChains = Map.empty, requests = [],
       nextHandle = 0 \<rparr>"

subsection \<open>downloadDependency\<close>

text \<open>
  The body of \<^verbatim>\<open>downloadDependency\<close> has no \<^verbatim>\<open>await\<close>: the call resolves the alias
  (a throw there rejects the returned promise and leaves the caches alone), looks the
  key up, and on a miss starts the chain and stores its promise, all in one step.
\<close>

definition downloadDependency ::
  "externals \<Rightarrow> store \<Rightarrow> string \<Rightarrow> string \<Rightarrow> string \<Rightarrow> (error + handle) \<times> store" where
  "downloadDependency x s name version path =
     (case resolveNPMAlias name version of
        Inl e \<Rightarrow> (Inl e, s)
      | Inr (depName, depVersion) \<Rightarrow>
          let id = depName @ depVersion @ path in
          (case packages s id of
             Some h \<Rightarrow> (Inr h, s)
           | None \<Rightarrow>
               let nameWithoutAlias = stripAlias depName;
                   protocol = getFetchProtocol x depVersion False;
                   h = nextHandle s
               in (Inr h,
                   s\<lparr> packages := (packages s)(id \<mapsto> h),
                      packagePromises := (packagePromises s)(h \<mapsto> Pending),
                      fileChains := (fileChains s)(h \<mapsto>
                        \<lparr> fc_path = path, fc_name = nameWithoutAlias,
                          fc_version = depVersion, fc_stage = Primary \<rparr>),
                      requests := requests s @
                        [FileRequest protocol nameWithoutAlias depVersion path],
                      nextHandle := Suc h \<rparr>)))"

text \<open>
  The chain of the promise \<open>h\<close> hears from the network. A failure of the first
  request runs the \<^verbatim>\<open>catch\<close> handler, which sends the request to the fallback
  backend; a failure of that one rejects the promise. Nothing deletes the entry of
  \<^verbatim>\<open>packages\<close>.
\<close>

definition settleFile :: "externals \<Rightarrow> store \<Rightarrow> handle \<Rightarrow> error + string \<Rightarrow> store" where
  "settleFile x s h outcome =
     (case (fileChains s h, packagePromises s h) of
        (Some c, Some Pending) \<Rightarrow>
          (case outcome of
             Inr text \<Rightarrow>
               s\<lparr> packagePromises := (packagePromises s)(h \<mapsto>
                    Fulfilled \<lparr> m_path = fc_path c, m_code = text, m_requires = None,
                                m_stubbed = None, m_downloaded = Some True \<rparr>) \<rparr>
           | Inl e \<Rightarrow>
               (case fc_stage c of
                  Primary \<Rightarrow>
                    s\<lparr> fileChains := (fileChains s)(h \<mapsto> c\<lparr> fc_stage := Fallback \<rparr>),
                       requests := requests s @
                         [FileRequest (getFetchProtocol x (fc_version c) True)
                            (fc_name c) (fc_version c) (fc_path c)] \<rparr>
                | Fallback \<Rightarrow>
                    s\<lparr> packagePromises := (packagePromises s)(h \<mapsto> Rejected e) \<rparr>))
      | _ \<Rightarrow> s)"

subsection \<open>getMeta\<close>

definition startsWithDigit :: "string \<Rightarrow> bool" where
  "startsWithDigit v = (v \<noteq> [] \<and> isDigit (hd v))"

text \<open>\<^verbatim>\<open>`${packageJSONPath || depName}@${depVersion}`\<close>: null and the empty string are falsy.\<close>

definition metaId :: "string option \<Rightarrow> string \<Rightarrow> string \<Rightarrow> string" where
  "metaId packageJSONPath depName depVersion =
     (case packageJSONPath of
        Some p \<Rightarrow> if p \<noteq> [] then p else depName
      | None \<Rightarrow> depName) @ ''@'' @ depVersion"

text \<open>
  \<^verbatim>\<open>metas[id] = protocol.meta(...).then(fetchWithRetries)...; return metas[id]\<close>: a new
  pending promise is stored under the key, with the stage its chain starts in and the
  requests sent within the call.
\<close>

definition startMeta ::
  "store \<Rightarrow> string \<Rightarrow> metaStage \<Rightarrow> request list \<Rightarrow> (error + handle) \<times> store" where
  "startMeta s key stage sent =
     (let h = nextHandle s
      in (Inr h,
          s\<lparr> metas := (metas s)(key \<mapsto> h),
             metaPromises := (metaPromises s)(h \<mapsto> Pending),
             metaIds := (metaIds s)(h \<mapsto> key),
             metaStages := (metaStages s)(h \<mapsto> stage),
             requests := requests s @ sent,
             nextHandle := Suc h \<rparr>))"

text \<open>
  \<^verbatim>\<open>getMeta\<close> up to its \<^verbatim>\<open>return\<close>. On a miss it calls \<^verbatim>\<open>protocol.meta\<close>, whose body
  runs up to its first \<^verbatim>\<open>await\<close> within the call:
  \<^item> for \<^verbatim>\<open>jsDelivrNPM\<close> and a version that does not start with a digit, that is the
    call of \<^verbatim>\<open>downloadDependency\<close> for \<^verbatim>\<open>/package.json\<close>; no metadata request is sent
    before that download is there and its version is read;
  \<^item> for \<^verbatim>\<open>jsDelivrGH\<close> it is the \<^verbatim>\<open>fetch\<close> of the latest commit;
  \<^item> for the other backends \<^verbatim>\<open>meta\<close> has no \<^verbatim>\<open>await\<close> and resolves to the URL at
    once; \<^verbatim>\<open>fetchWithRetries\<close> then runs in the same turn of the event loop, and its
    request is recorded with the call.
\<close>

definition getMeta ::
  "externals \<Rightarrow> store \<Rightarrow> string \<Rightarrow> string option \<Rightarrow> string \<Rightarrow> bool \<Rightarrow>
     (error + handle) \<times> store" where
  "getMeta x s name packageJSONPath version useFallback =
     (case resolveNPMAlias name version of
        Inl e \<Rightarrow> (Inl e, s)
      | Inr (depName, depVersion) \<Rightarrow>
          let nameWithoutAlias = stripAlias depName;
              id = metaId packageJSONPath depName depVersion
          in (case metas s id of
                Some h \<Rightarrow> (Inr h, s)
              | None \<Rightarrow>
                  let protocol = getFetchProtocol x depVersion useFallback in
                  if protocol = jsDelivrNPM \<and> \<not> startsWithDigit depVersion then
                    (case downloadDependency x s nameWithoutAlias depVersion ''/package.json'' of
                       (packageJson, s1) \<Rightarrow>
                         startMeta s1 id (AwaitingManifest nameWithoutAlias packageJson) [])
                  else if protocol = jsDelivrGH then
                    startMeta s id (AwaitingSha nameWithoutAlias depVersion)
                      [ShaRequest (nextHandle s) depVersion]
                  else
                    startMeta s id Requested
                      [MetaRequest (nextHandle s) protocol nameWithoutAlias depVersion]))"

text \<open>
  The \<^verbatim>\<open>catch\<close> handler of the chain: \<^verbatim>\<open>delete metas[id]\<close>, and the error is thrown
  again, which rejects the promise.
\<close>

definition rejectMeta :: "store \<Rightarrow> handle \<Rightarrow> string \<Rightarrow> error \<Rightarrow> store" where
  "rejectMeta s h key e =
     s\<lparr> metas := (metas s)(key := None),
        metaPromises := (metaPromises s)(h \<mapsto> Rejected e) \<rparr>"

text \<open>
  \<^verbatim>\<open>protocol.meta\<close> of the pending promise \<open>h\<close> goes on after its \<^verbatim>\<open>await\<close>. \<open>answer\<close> is
  what it reads: the version that \<^verbatim>\<open>JSON.parse\<close> finds in the downloaded manifest file,
  or the commit that the lookup returns; \<open>Inl\<close> when that throws. With the URL the
  request for the document is sent. When the download of the manifest file is
  rejected, or its call threw, the chain fails and no request is sent; while that
  download is pending, nothing happens.
\<close>

definition resolveMetaUrl :: "store \<Rightarrow> handle \<Rightarrow> error + string \<Rightarrow> store" where
  "resolveMetaUrl s h answer =
     (case (metaStages s h, metaIds s h, metaPromises s h) of
        (Some (AwaitingManifest name packageJson), Some key, Some Pending) \<Rightarrow>
          (case packageJson of
             Inl e \<Rightarrow> rejectMeta s h key e
           | Inr p \<Rightarrow>
               (case packagePromises s p of
                  Some (Fulfilled module) \<Rightarrow>
                    (case answer of
                       Inl e \<Rightarrow> rejectMeta s h key e
                     | Inr latestVersion \<Rightarrow>
                         s\<lparr> metaStages := (metaStages s)(h \<mapsto> Requested),
                            requests := requests s @
                              [MetaRequest h jsDelivrNPM name latestVersion] \<rparr>)
                | Some (Rejected e) \<Rightarrow> rejectMeta s h key e
                | _ \<Rightarrow> s))
      | (Some (AwaitingSha name version), Some key, Some Pending) \<Rightarrow>
          (case answer of
             Inl e \<Rightarrow> rejectMeta s h key e
           | Inr sha \<Rightarrow>
               s\<lparr> metaStages := (metaStages s)(h \<mapsto> Requested),
                  requests := requests s @
                    [MetaRequest h jsDelivrGH name (version @ ''@'' @ sha)] \<rparr>)
      | _ \<Rightarrow> s)"

text \<open>
  The request for the document of the promise \<open>h\<close> is answered and parsed, or fails.
  On an error the \<^verbatim>\<open>catch\<close> handler runs.
\<close>

definition settleMeta :: "store \<Rightarrow> handle \<Rightarrow> error + metaFiles \<Rightarrow> store" where
  "settleMeta s h outcome =
     (case (metaStages s h, metaIds s h, metaPromises s h) of
        (Some Requested, Some key, Some Pending) \<Rightarrow>
          (case outcome of
             Inr doc \<Rightarrow> s\<lparr> metaPromises := (metaPromises s)(h \<mapsto> Fulfilled doc) \<rparr>
           | Inl e \<Rightarrow> rejectMeta s h key e)
      | _ \<Rightarrow> s)"

subsection \<open>Runs of the caches\<close>

text \<open>
  What can happen to the caches, in any order: a call of \<^verbatim>\<open>getMeta\<close>, a call of
  \<^verbatim>\<open>downloadDependency\<close>, and a pending chain going on: \<^verbatim>\<open>protocol.meta\<close> resolving
  to its URL, the network answering a request.
\<close>

datatype event =
    CallGetMeta string "string option" string bool
  | CallDownloadDependency string string string
  | ResolveMetaUrl handle "error + string"
  | SettleMeta handle "error + metaFiles"
  | SettleFile handle "error + string"

fun step :: "externals \<Rightarrow> store \<Rightarrow> event \<Rightarrow> store" where
  "step x s (CallGetMeta name packageJSONPath version useFallback) =
     snd (getMeta x s name packageJSONPath version useFallback)"
| "step x s (CallDownloadDependency name version path) =
     snd (downloadDependency x s name version path)"
| "step x s (ResolveMetaUrl h answer) = resolveMetaUrl s h answer"
| "step x s (SettleMeta h outcome) = settleMeta s h outcome"
| "step x s (SettleFile h outcome) = settleFile x s h outcome"

definition run :: "externals \<Rightarrow> store \<Rightarrow> event list \<Rightarrow> store" where
  "run x s evs = foldl (step x) s evs"

text \<open>The metadata chain \<open>h\<close> for the key \<open>key\<close> is in flight.\<close>

definition metaInFlight :: "store \<Rightarrow> handle \<Rightarrow> string \<Rightarrow> bool" where
  "metaInFlight s h key = (metaIds s h = Some key \<and> metaPromises s h = Some Pending)"

fun isMetaRequest :: "request \<Rightarrow> bool" where
  "isMetaRequest (MetaRequest h p n v) = True"
| "isMetaRequest (ShaRequest h v) = False"
| "isMetaRequest (FileRequest p n v q) = False"

text \<open>The chain that sent a request, for the requests of metadata chains.\<close>

fun requestHandle :: "request \<Rightarrow> handle option" where
  "requestHandle (MetaRequest h p n v) = Some h"
| "requestHandle (ShaRequest h v) = Some h"
| "requestHandle (FileRequest p n v q) = None"

text \<open>
  The requests for a metadata document that the chain \<open>h\<close> has sent, its lookups of
  the latest commit, and the requests of all metadata chains.
\<close>

definition metaRequestsOf :: "store \<Rightarrow> handle \<Rightarrow> request list" where
  "metaRequestsOf s h =
     filter (\<lambda>r. isMetaRequest r \<and> requestHandle r = Some h) (requests s)"

definition shaRequestsOf :: "store \<Rightarrow> handle \<Rightarrow> request list" where
  "shaRequestsOf s h =
     filter (\<lambda>r. \<not> isMetaRequest r \<and> requestHandle r = Some h) (requests s)"

definition metaChainRequests :: "store \<Rightarrow> request list" where
  "metaChainRequests s = filter (\<lambda>r. requestHandle r \<noteq> None) (requests s)"

subsection \<open>Invariants of the caches\<close>

text \<open>No promise and no request has a handle that is still to be given out.\<close>

definition fresh :: "store \<Rightarrow> bool" where
  "fresh s = (\<forall>h. nextHandle s \<le> h \<longrightarrow>
      metaIds s h = None \<and> metaPromises s h = None \<and> metaStages s h = None \<and>
      packagePromises s h = None \<and> fileChains s h = None \<and>
      Some h \<notin> requestHandle ` set (requests s))"

text \<open>A metadata chain in flight is the one stored under its key.\<close>

definition inFlightStored :: "store \<Rightarrow> bool" where
  "inFlightStored s = (\<forall>h key. metaInFlight s h key \<longrightarrow> metas s key = Some h)"

text \<open>
  A metadata chain sends the request for its document at most once, and has reached
  the last stage when it has; it looks the latest commit up at most once.
\<close>

definition oneRequest :: "store \<Rightarrow> bool" where
  "oneRequest s = (\<forall>h. length (metaRequestsOf s h) \<le> 1 \<and>
      length (shaRequestsOf s h) \<le> 1 \<and>
      (metaRequestsOf s h \<noteq> [] \<longrightarrow> metaStages s h = Some Requested))"

text \<open>An entry of \<^verbatim>\<open>packages\<close> holds a promise of the heap.\<close>

definition packagesStored :: "store \<Rightarrow> bool" where
  "packagesStored s = (\<forall>key h. packages s key = Some h \<longrightarrow>
      packagePromises s h \<noteq> None \<and> fileChains s h \<noteq> None)"

definition wellFormed :: "store \<Rightarrow> bool" where
  "wellFormed s = (fresh s \<and> inFlightStored s \<and> oneRequest s \<and> packagesStored s)"

subsection \<open>Some runs\<close>

text \<open>
  A first download of a file of \<^verbatim>\<open>left-pad\<close>; the same download with both backends
  failing; a first call of \<^verbatim>\<open>getMeta\<close> for \<^verbatim>\<open>react\<close>.
\<close>

definition leftPadIndex :: string where
  "leftPadIndex = ''/node_modules/left-pad/index.js''"


definition failedDownload :: store where
  "failedDownload =
     run posix emptyStore
       [CallDownloadDependency ''left-pad'' ''1.3.0'' leftPadIndex,
        SettleFile 0 (Inl (CouldNotFetchUrl ''https://cdn.jsdelivr.net/npm/left-pad@1.3.0/index.js'')),
        SettleFile 0 (Inl (CouldNotFetchUrl ''https://unpkg.com/left-pad@1.3.0/index.js''))]"

definition firstGetMeta :: store where
  "firstGetMeta = run posix emptyStore [CallGetMeta ''react'' None ''16.0.0'' False]"

text \<open>
  A first call of \<^verbatim>\<open>getMeta\<close> for the tag \<^verbatim>\<open>latest\<close> of \<^verbatim>\<open>pkg\<close>: the download of
  \<^verbatim>\<open>/package.json\<close> is the promise 0, the metadata chain the promise 1. Then the first
  request of the download fails, and then its fallback request.
\<close>

definition tagFallbackPending :: store where
  "tagFallbackPending =
     run posix emptyStore
       [CallGetMeta ''pkg'' None ''latest'' False,
        SettleFile 0 (Inl (CouldNotFetchUrl ''https://cdn.jsdelivr.net/npm/pkg@latest/package.json''))]"

definition tagDownloadFailed :: store where
  "tagDownloadFailed =
     step posix tagFallbackPending
       (SettleFile 0 (Inl (CouldNotFetchUrl ''https://unpkg.com/pkg@latest/package.json'')))"

subsection \<open>The manager, the manifest and what is awaited\<close>

text \<open>
  The parts of the \<^verbatim>\<open>Manager\<close> this file reads and writes: the module graph
  \<^verbatim>\<open>transpiledModules\<close>, keyed by path (the edges of a node are the paths of the nodes
  they lead to), the manifest and \<^verbatim>\<open>envVariables.NODE_PATH\<close>.
\<close>

record TranspiledModule =
  tm_module :: module
  tm_initiators :: "string set"
  tm_dependencies :: "string set"

record dependency =
  dep_name :: string
  dep_version :: string

record lockRecord =
  semver :: string
  resolved :: string

record Manifest =
  dependencies :: "dependency list"
  dependencyDependencies :: "string \<rightharpoonup> lockRecord"

record Manager =
  transpiledModules :: "string \<rightharpoonup> TranspiledModule"
  manifest :: Manifest
  NODE_PATH :: "string option"

text \<open>
  What a call of \<^verbatim>\<open>fetchModule\<close> waits for and does not compute itself:
  \<^item> \<open>resolvePathResult\<close>: what \<^verbatim>\<open>resolvePath(path, currentTModule, manager,
    defaultExtensions, meta)\<close> settles to, with the manager and the caches as the
    resolution leaves them (its \<^verbatim>\<open>readFile\<close> adds modules and downloads files);
  \<^item> \<open>parseVersion\<close>: \<^verbatim>\<open>JSON.parse(code).version\<close>, \<open>Inl\<close> when parsing or the
    destructuring throws, \<open>Inr None\<close> when the document has no version;
  \<^item> \<open>metaUrlOutcome\<close>: what \<^verbatim>\<open>protocol.meta\<close> reads after its \<^verbatim>\<open>await\<close> (the version of
    the downloaded manifest file, the latest commit);
  \<^item> \<open>metaOutcome\<close> and \<open>fileOutcome\<close>: what the network answers to a pending chain.
\<close>

record world =
  resolvePathResult ::
    "string \<Rightarrow> Meta \<Rightarrow> Manager \<Rightarrow> store \<Rightarrow> (error + string) \<times> Manager \<times> store"
  parseVersion :: "string \<Rightarrow> error + string option"
  metaUrlOutcome :: "handle \<Rightarrow> error + string"
  metaOutcome :: "handle \<Rightarrow> error + metaFiles"
  fileOutcome :: "handle \<Rightarrow> stage \<Rightarrow> error + string"

subsection \<open>getDependencyVersion\<close>

text \<open>
  \<^verbatim>\<open>{ version, packageJSONPath }\<close>; the version is \<open>None\<close> when the parsed manifest
  file has none (the property is \<^verbatim>\<open>undefined\<close>).
\<close>

record versionInfo =
  vi_version :: "string option"
  vi_packageJSONPath :: "string option"

definition startsWithHttps :: "string \<Rightarrow> bool" where
  "startsWithHttps v = (take 8 v = ''https://'')"

text \<open>
  The \<^verbatim>\<open>try\<close> block after \<^verbatim>\<open>resolvePath\<close> has settled to \<open>found\<close>: \<open>Some\<close> of what
  it returns, \<open>None\<close> when it throws or runs to its end (both lead to the code after
  the \<^verbatim>\<open>catch\<close>).
\<close>

definition fromResolvedManifest ::
  "externals \<Rightarrow> world \<Rightarrow> Manifest \<Rightarrow> Manager \<Rightarrow> string \<Rightarrow> error + string \<Rightarrow>
     versionInfo option" where
  "fromResolvedManifest x w mf mgr dependencyName found =
     (case found of
        Inl e \<Rightarrow> None
      | Inr foundPackageJSONPath \<Rightarrow>
          (case (if foundPackageJSONPath =
                      join x [''/node_modules'', dependencyName, ''package.json'']
                 then find (\<lambda>dep. dep_name dep = dependencyName) (dependencies mf)
                 else None) of
             Some rootDependency \<Rightarrow>
               Some \<lparr> vi_version = Some (dep_version rootDependency),
                      vi_packageJSONPath = Some foundPackageJSONPath \<rparr>
           | None \<Rightarrow>
               (case transpiledModules mgr foundPackageJSONPath of
                  None \<Rightarrow> None
                | Some tm \<Rightarrow>
                    let packageJSON = m_code (tm_module tm) in
                    (case parseVersion w packageJSON of
                       Inl e \<Rightarrow> None
                     | Inr version \<Rightarrow>
                         (case dependencyDependencies mf dependencyName of
                            Some savedDepDep \<Rightarrow>
                              if Some (resolved savedDepDep) = version \<and>
                                 startsWithHttps (semver savedDepDep)
                              then Some \<lparr> vi_version = Some (semver savedDepDep),
                                          vi_packageJSONPath = Some foundPackageJSONPath \<rparr>
                              else if packageJSON \<noteq> ''//empty.js''
                              then Some \<lparr> vi_version = version,
                                          vi_packageJSONPath = Some foundPackageJSONPath \<rparr>
                              else None
                          | None \<Rightarrow>
                              if packageJSON \<noteq> ''//empty.js''
                              then Some \<lparr> vi_version = version,
                                          vi_packageJSONPath = Some foundPackageJSONPath \<rparr>
                              else None)))))"

text \<open>The code after the \<^verbatim>\<open>catch\<close>: the lock record, then the root manifest.\<close>

definition fromManifest :: "Manifest \<Rightarrow> string \<Rightarrow> versionInfo option" where
  "fromManifest mf dependencyName =
     (let version =
            (case dependencyDependencies mf dependencyName of
               Some d \<Rightarrow> Some (if startsWithHttps (semver d) then semver d else resolved d)
             | None \<Rightarrow>
                 (case find (\<lambda>m. dep_name m = dependencyName) (dependencies mf) of
                    Some dep \<Rightarrow> Some (dep_version dep)
                  | None \<Rightarrow> None))
      in case version of
           Some v \<Rightarrow>
             if v \<noteq> [] then Some \<lparr> vi_version = Some v, vi_packageJSONPath = None \<rparr>
             else None
         | None \<Rightarrow> None)"

definition getDependencyVersion ::
  "externals \<Rightarrow> world \<Rightarrow> Manager \<Rightarrow> store \<Rightarrow> string \<Rightarrow>
     versionInfo option \<times> Manager \<times> store" where
  "getDependencyVersion x w mgr s dependencyName =
     (let mf = manifest mgr in
      case resolvePathResult w (join x [dependencyName, ''package.json'']) Map.empty mgr s of
        (found, mgr1, s1) \<Rightarrow>
          (case fromResolvedManifest x w mf mgr1 dependencyName found of
             Some info \<Rightarrow> (Some info, mgr1, s1)
           | None \<Rightarrow> (fromManifest mf dependencyName, mgr1, s1)))"

subsection \<open>fetchModule\<close>

text \<open>
  \<^verbatim>\<open>path.replace(/.*\/node_modules\//, '')\<close>. On one line the match runs from the
  start of the line to the end of the last \<^verbatim>\<open>/node_modules/\<close>; the leftmost match is
  on the first line that has one.
\<close>

fun afterLastNodeModules :: "string \<Rightarrow> string option" where
  "afterLastNodeModules [] = None"
| "afterLastNodeModules (c # cs) =
     (case afterLastNodeModules cs of
        Some r \<Rightarrow> Some r
      | None \<Rightarrow>
          if take 14 (c # cs) = ''/node_modules/'' then Some (drop 14 (c # cs)) else None)"

function stripNodeModules :: "string \<Rightarrow> string" where
  "stripNodeModules p =
     (let line = takeWhile (\<lambda>c. \<not> isLineTerminator c) p;
          rest = dropWhile (\<lambda>c. \<not> isLineTerminator c) p
      in case afterLastNodeModules line of
           Some r \<Rightarrow> r @ rest
         | None \<Rightarrow>
             (case rest of
                [] \<Rightarrow> line
              | t # rest' \<Rightarrow> line @ t # stripNodeModules rest'))"
  by pat_completeness auto
termination
proof (relation "measure length")
  fix p :: string and line rest t rest'
  assume "rest = dropWhile (\<lambda>c. \<not> isLineTerminator c) p" and "rest = t # rest'"
  then have "length (t # rest') \<le> length p"
    using length_dropWhile_le[of "\<lambda>c. \<not> isLineTerminator c" p] by simp
  then show "(rest', p) \<in> measure length" by simp
qed simp

declare stripNodeModules.simps [simp del]

text \<open>\<^verbatim>\<open>/^(\w|@\w|@-)/.test(path)\<close>\<close>

definition isDependency :: "string \<Rightarrow> bool" where
  "isDependency p =
     (case p of
        [] \<Rightarrow> False
      | c # cs \<Rightarrow>
          isWordChar c \<or>
          (c = CHR ''@'' \<and> (case cs of [] \<Rightarrow> False | d # ds \<Rightarrow> isWordChar d \<or> d = CHR ''-'')))"

text \<open>
  \<^verbatim>\<open>protocol.normalizeMeta\<close>: \<^verbatim>\<open>normalize\<close> for \<^verbatim>\<open>csbGH\<close> and \<^verbatim>\<open>unpkg\<close>,
  \<^verbatim>\<open>normalizeJSDelivr\<close> for the two others. Given a listing of the other shape,
  \<^verbatim>\<open>normalize\<close> finds no entry of type file and no \<^verbatim>\<open>files\<close>, and \<^verbatim>\<open>normalizeJSDelivr\<close>
  joins the root path and a name that is \<^verbatim>\<open>undefined\<close>, which is taken to throw.
\<close>

definition normalizeMeta ::
  "externals \<Rightarrow> protocol \<Rightarrow> metaFiles \<Rightarrow> Meta \<Rightarrow> string \<Rightarrow> error + Meta" where
  "normalizeMeta x p files fileObject rootPath =
     (if p = csbGH \<or> p = unpkg then
        (case files of
           Nested fs \<Rightarrow> Inr (normalizeFiles fs fileObject rootPath)
         | Flat fs \<Rightarrow> Inr fileObject)
      else
        (case files of
           Flat fs \<Rightarrow> Inr (normalizeJSDelivr x fs fileObject rootPath)
         | Nested fs \<Rightarrow> if fs = [] then Inr fileObject else Inl TypeError))"

text \<open>
  The result of a download promise, once the network has answered its requests: the
  first one and, if that fails, the one to the fallback backend.
\<close>

definition awaitFile ::
  "externals \<Rightarrow> world \<Rightarrow> store \<Rightarrow> handle \<Rightarrow> (error + module) \<times> store" where
  "awaitFile x w s h =
     (let s1 = (case fileChains s h of
                  Some c \<Rightarrow>
                    if fc_stage c = Primary then settleFile x s h (fileOutcome w h Primary)
                    else s
                | None \<Rightarrow> s);
          s2 = settleFile x s1 h (fileOutcome w h Fallback)
      in case packagePromises s2 h of
           Some (Fulfilled m) \<Rightarrow> (Inr m, s2)
         | Some (Rejected e) \<Rightarrow> (Inl e, s2)
         | _ \<Rightarrow> (Inl TypeError, s2))"

text \<open>
  \<^verbatim>\<open>await\<close> of a metadata promise: its value or its error if it is settled; if it is
  pending, its chain runs to its end first: the download it may be waiting for,
  \<^verbatim>\<open>protocol.meta\<close> resolving to the URL, the request for the document.
\<close>

definition awaitMeta ::
  "externals \<Rightarrow> world \<Rightarrow> store \<Rightarrow> handle \<Rightarrow> (error + metaFiles) \<times> store" where
  "awaitMeta x w s h =
     (case metaPromises s h of
        Some (Fulfilled doc) \<Rightarrow> (Inr doc, s)
      | Some (Rejected e) \<Rightarrow> (Inl e, s)
      | _ \<Rightarrow>
          let s1 = (case metaStages s h of
                      Some (AwaitingManifest name (Inr p)) \<Rightarrow> snd (awaitFile x w s p)
                    | _ \<Rightarrow> s);
              s2 = resolveMetaUrl s1 h (metaUrlOutcome w h);
              s3 = settleMeta s2 h (metaOutcome w h)
          in (case metaPromises s3 h of
                Some (Fulfilled doc) \<Rightarrow> (Inr doc, s3)
              | Some (Rejected e) \<Rightarrow> (Inl e, s3)
              | _ \<Rightarrow> (Inl TypeError, s3)))"

text \<open>
  \<^verbatim>\<open>await getMeta(name, packageJSONPath, version, useFallback)\<close>; a version that is
  \<^verbatim>\<open>undefined\<close> makes \<^verbatim>\<open>version.match\<close> throw.
\<close>

definition awaitGetMeta ::
  "externals \<Rightarrow> world \<Rightarrow> store \<Rightarrow> string \<Rightarrow> string option \<Rightarrow> string option \<Rightarrow> bool \<Rightarrow>
     (error + metaFiles) \<times> store" where
  "awaitGetMeta x w s name packageJSONPath version useFallback =
     (case version of
        None \<Rightarrow> (Inl TypeError, s)
      | Some v \<Rightarrow>
          (case getMeta x s name packageJSONPath v useFallback of
             (Inl e, s1) \<Rightarrow> (Inl e, s1)
           | (Inr h, s1) \<Rightarrow> awaitMeta x w s1 h))"

text \<open>
  \<^verbatim>\<open>fetchModule\<close> up to and including the resolution of the path: the dependency
  name, the version and the path found.
\<close>

record resolution =
  r_dependencyName :: string
  r_version :: "string option"
  r_foundPath :: string

definition versionText :: "string option \<Rightarrow> string" where
  "versionText version = (case version of Some v \<Rightarrow> v | None \<Rightarrow> ''undefined'')"

definition fetchModuleResolve ::
  "externals \<Rightarrow> world \<Rightarrow> Manager \<Rightarrow> store \<Rightarrow> string \<Rightarrow>
     (error + resolution) \<times> Manager \<times> store" where
  "fetchModuleResolve x w mgr s path =
     (let dependencyName = getDependencyName x (stripNodeModules path) in
      case getDependencyVersion x w mgr s dependencyName of
        (None, mgr1, s1) \<Rightarrow> (Inl (DependencyNotFoundError path), mgr1, s1)
      | (Some versionInfo, mgr1, s1) \<Rightarrow>
          let packageJSONPath = vi_packageJSONPath versionInfo;
              version = vi_version versionInfo
          in
          (case (if dependencyName = ''d3-interpolate'' then (Inl DoesNotWorkOnJsdelivr, s1)
                 else awaitGetMeta x w s1 dependencyName packageJSONPath version False) of
             (tried, s2) \<Rightarrow>
               (case (case tried of
                        Inr meta \<Rightarrow>
                          (Inr meta, getFetchProtocol x (versionText version) False, s2)
                      | Inl e \<Rightarrow>
                          (case awaitGetMeta x w s2 dependencyName packageJSONPath version True of
                             (fallback, s3) \<Rightarrow>
                               (fallback, getFetchProtocol x (versionText version) True, s3))) of
                  (Inl e, normalizeProtocol, s3) \<Rightarrow> (Inl e, mgr1, s3)
                | (Inr meta, normalizeProtocol, s3) \<Rightarrow>
                    let rootPath =
                          (case packageJSONPath of
                             Some p \<Rightarrow>
                               if p \<noteq> [] then dirname x p
                               else join x [''/node_modules'', dependencyName]
                           | None \<Rightarrow> join x [''/node_modules'', dependencyName]);
                        normalizedCacheKey = dependencyName @ rootPath
                    in
                    (case (case normalizedMetas s3 normalizedCacheKey of
                             Some cached \<Rightarrow> Inr cached
                           | None \<Rightarrow> normalizeMeta x normalizeProtocol meta Map.empty rootPath) of
                       Inl e \<Rightarrow> (Inl e, mgr1, s3)
                     | Inr normalizedMeta \<Rightarrow>
                         let s4 = s3\<lparr> normalizedMetas :=
                                         (normalizedMetas s3)(normalizedCacheKey \<mapsto> normalizedMeta),
                                       combinedMetas := combinedMetas s3 ++ normalizedMeta \<rparr>
                         in
                         (case resolvePathResult w path normalizedMeta mgr1 s4 of
                            (Inl e, mgr2, s5) \<Rightarrow> (Inl e, mgr2, s5)
                          | (Inr foundPath, mgr2, s5) \<Rightarrow>
                              (Inr \<lparr> r_dependencyName = dependencyName, r_version = version,
                                     r_foundPath = foundPath \<rparr>, mgr2, s5))))))"

text \<open>
  \<^verbatim>\<open>fetchModule\<close>, for the module at \<open>currentPath\<close> asking for \<open>path\<close>: the stub when
  the path found is \<^verbatim>\<open>//empty.js\<close>, the download otherwise.
\<close>

definition fetchModule ::
  "externals \<Rightarrow> world \<Rightarrow> Manager \<Rightarrow> store \<Rightarrow> string \<Rightarrow> string \<Rightarrow>
     (error + module) \<times> Manager \<times> store" where
  "fetchModule x w mgr s path currentPath =
     (case fetchModuleResolve x w mgr s path of
        (Inl e, mgr1, s1) \<Rightarrow> (Inl e, mgr1, s1)
      | (Inr r, mgr1, s1) \<Rightarrow>
          if r_foundPath r = ''//empty.js'' then
            (Inr \<lparr> m_path = (if isDependency path then join x [''/node_modules'', path]
                              else join x [currentPath, path]),
                   m_code = ''module.exports = {};'',
                   m_requires = Some [],
                   m_stubbed = Some True,
                   m_downloaded = None \<rparr>, mgr1, s1)
          else
            (case r_version r of
               None \<Rightarrow> (Inl TypeError, mgr1, s1)
             | Some version \<Rightarrow>
                 (case downloadDependency x s1 (r_dependencyName r) version (r_foundPath r) of
                    (Inl e, s2) \<Rightarrow> (Inl e, mgr1, s2)
                  | (Inr h, s2) \<Rightarrow>
                      (case awaitFile x w s2 h of
                         (module, s3) \<Rightarrow> (module, mgr1, s3)))))"

subsection \<open>A sample project\<close>

text \<open>
  A manager whose manifest declares \<^verbatim>\<open>pkg\<close> at a URL version and \<^verbatim>\<open>my-react\<close> at
  an alias without a version, with the manifest file of \<^verbatim>\<open>pkg\<close> in the graph; a world
  in which \<^verbatim>\<open>pkg/lib/node\<close> resolves to the empty module.
\<close>

definition csbVersion :: string where
  "csbVersion = ''https://pkg.csb.dev/org/repo/commit/1a2b3c4d/pkg''"

definition sampleManager :: Manager where
  "sampleManager =
     \<lparr> transpiledModules =
         [''/node_modules/pkg/package.json'' \<mapsto>
            \<lparr> tm_module = \<lparr> m_path = ''/node_modules/pkg/package.json'',
                              m_code = ''{ version: 1.0.0 }'', m_requires = None,
                              m_stubbed = None, m_downloaded = Some True \<rparr>,
              tm_initiators = {}, tm_dependencies = {} \<rparr>],
       manifest =
         \<lparr> dependencies =
             [\<lparr> dep_name = ''pkg'', dep_version = csbVersion \<rparr>,
              \<lparr> dep_name = ''my-react'', dep_version = ''npm:react'' \<rparr>],
           dependencyDependencies = Map.empty \<rparr>,
       NODE_PATH = None \<rparr>"

definition sampleWorld :: world where
  "sampleWorld =
     \<lparr> resolvePathResult = (\<lambda>p meta mgr s.
         (if p = ''pkg/package.json'' then Inr ''/node_modules/pkg/package.json''
          else if p = ''pkg/lib/node'' then Inr ''//empty.js''
          else Inl (ModuleNotFound p), mgr, s)),
       parseVersion = (\<lambda>code.
          if code = ''{ version: 1.0.0 }'' then Inr (Some ''1.0.0'') else Inl SyntaxError),
       metaUrlOutcome = (\<lambda>h. Inr ''1.0.0''),
       metaOutcome = (\<lambda>h. Inr (Nested [MetaFile ''/index.js'' TypeFile None])),
       fileOutcome = (\<lambda>h st. Inr ''module.exports = 1'') \<rparr>"

definition stubResolution :: "(error + resolution) \<times> Manager \<times> store" where
  "stubResolution = fetchModuleResolve posix sampleWorld sampleManager emptyStore ''pkg/lib/node''"

definition afterMeta :: store where
  "afterMeta =
     snd (awaitGetMeta posix sampleWorld emptyStore ''pkg''
            (Some ''/node_modules/pkg/package.json'') (Some csbVersion) False)"

subsection \<open>resolvePath\<close>























section \<open>Properties\<close>

subsection \<open>Backend selection\<close>

lemma splitLastAt_None: "CHR ''@'' \<notin> set s \<Longrightarrow> splitLastAt s = None"
  by (induction s) auto

text \<open>
  C2. The backend is chosen in a fixed order: a version matching the draft pattern
  selects \<open>csbGH\<close>; otherwise a version containing a slash selects \<open>jsDelivrGH\<close>;
  otherwise \<open>jsDelivrNPM\<close> is selected, or \<open>unpkg\<close> when the fallback flag is set.
  So a version \<open>user/repo\<close> that the draft pattern does not match selects the GitHub
  backend, and a version made of digits and dots never does.
\<close>

theorem getFetchProtocol_order:
  "(CSB_PKG_PROTOCOL x v \<longrightarrow> getFetchProtocol x v fb = csbGH) \<and>
   (\<not> CSB_PKG_PROTOCOL x v \<and> CHR ''/'' \<in> set v \<longrightarrow> getFetchProtocol x v fb = jsDelivrGH) \<and>
   (\<not> CSB_PKG_PROTOCOL x v \<and> CHR ''/'' \<notin> set v \<longrightarrow>
      getFetchProtocol x v fb = (if fb then unpkg else jsDelivrNPM)) \<and>
   (\<not> CSB_PKG_PROTOCOL x (user @ ''/'' @ repo) \<longrightarrow>
      getFetchProtocol x (user @ ''/'' @ repo) fb = jsDelivrGH) \<and>
   ((\<forall>c \<in> set w. isDigit c \<or> c = CHR ''.'') \<longrightarrow> getFetchProtocol x w fb \<noteq> jsDelivrGH)"
proof -
  have "CHR ''/'' \<notin> set w" if "\<forall>c \<in> set w. isDigit c \<or> c = CHR ''.''"
    using that by (auto simp: isDigit_def)
  then show ?thesis
    by (auto simp: getFetchProtocol_def Let_def)
qed

theorem getFetchProtocol_order_witness:
  "\<not> CSB_PKG_PROTOCOL posix ''user/repo'' \<and>
   getFetchProtocol posix ''user/repo'' False = jsDelivrGH \<and>
   getFetchProtocol posix ''1.2.3'' False \<noteq> jsDelivrGH \<and>
   CSB_PKG_PROTOCOL posix ''https://pkg.csb.dev/a/commit/b/c'' \<and>
   getFetchProtocol posix ''https://pkg.csb.dev/a/commit/b/c'' False = csbGH"
  using getFetchProtocol_order [of posix "''https://pkg.csb.dev/a/commit/b/c''" False
      "''user''" "''repo''" "''1.2.3''"]
  by (simp add: posix_def isDigit_def)

subsection \<open>The two normalizers\<close>











subsection \<open>fetchWithRetries\<close>

lemma fetchLoop_all_fail:
  assumes "i < retries"
    and "\<forall>k. i \<le> k \<and> k < retries \<longrightarrow> (\<exists>e. doFetch url (result (env k)) = Inl e)"
  shows "fetchLoop url retries env i lastTryTime now starts =
           (doFetch url (result (env (retries - 1))),
            starts @ startTimes env i lastTryTime now (retries - i),
            last (startTimes env i lastTryTime now (retries - i))
              + int (duration (env (retries - 1))))"
  using assms
proof (induction url retries env i lastTryTime now starts rule: fetchLoop.induct)
  case (1 url retries env i lastTryTime now starts)
  from "1.prems" obtain e where e: "doFetch url (result (env i)) = Inl e"
    by auto
  obtain n where n: "retries - i = Suc n"
    using "1.prems"(1) by (cases "retries - i") auto
  show ?case
  proof (cases "i = retries - 1")
    case True
    then have "n = 0" using n by simp
    with True e n "1.prems"(1) show ?thesis
      by (subst fetchLoop.simps) (simp add: Let_def)
  next
    case False
    with "1.prems"(1) have lt: "i + 1 < retries" by simp
    have n': "retries - (i + 1) = n" using n by simp
    then have "n \<noteq> 0" using lt by simp
    then obtain m where m: "n = Suc m" by (cases n) auto
    define now1 where "now1 = (if now - lastTryTime < 3000
                    then now + (3000 - (now - lastTryTime)) + int (overshoot (env i))
                    else now)"
    have now1': "now1 = (if now - lastTryTime < 3000
                  then lastTryTime + 3000 + int (overshoot (env i))
                  else now)"
      by (simp add: now1_def)
    have IH: "fetchLoop url retries env (i + 1) now1 (now1 + int (duration (env i)))
                (starts @ [now1]) =
           (doFetch url (result (env (retries - 1))),
            (starts @ [now1]) @
              startTimes env (i + 1) now1 (now1 + int (duration (env i))) (retries - (i + 1)),
            last (startTimes env (i + 1) now1 (now1 + int (duration (env i)))
                    (retries - (i + 1)))
              + int (duration (env (retries - 1))))"
      using "1.IH"[OF "1.prems"(1) now1_def refl e False lt] "1.prems"(2) by simp
    have "fetchLoop url retries env i lastTryTime now starts =
          fetchLoop url retries env (i + 1) now1 (now1 + int (duration (env i)))
            (starts @ [now1])"
      using "1.prems"(1) e False
      by (subst fetchLoop.simps) (simp add: Let_def now1_def)
    also note IH
    finally show ?thesis
      using n n' m now1' by (simp add: Let_def)
  qed
qed

lemma length_startTimes: "length (startTimes env i lastTryTime now n) = n"
  by (induction n arbitrary: i lastTryTime now) (simp_all add: Let_def)

lemma startTimes_Suc_nth:
  "Suc k < n \<Longrightarrow>
   startTimes env i lastTryTime now n ! Suc k =
     (if int (duration (env (i + k))) < 3000
      then startTimes env i lastTryTime now n ! k + 3000 + int (overshoot (env (i + Suc k)))
      else startTimes env i lastTryTime now n ! k + int (duration (env (i + k))))"
proof (induction n arbitrary: i lastTryTime now k)
  case 0
  then show ?case by simp
next
  case (Suc n)
  then obtain m where m: "n = Suc m" by (cases n) auto
  show ?case
  proof (cases k)
    case 0
    then show ?thesis by (simp add: m Let_def)
  next
    case (Suc j)
    with Suc.prems have "Suc j < n" by simp
    from Suc.IH[OF this] show ?thesis
      by (simp add: Suc Let_def)
  qed
qed

lemma last_startTimes:
  "0 < n \<Longrightarrow>
   last (startTimes env i lastTryTime now n) = startTimes env i lastTryTime now n ! (n - 1)"
  by (simp add: last_conv_nth length_startTimes flip: length_0_conv)

text \<open>
  C6. With the default retry count, on an endpoint that fails at every attempt,
  \<^verbatim>\<open>fetchWithRetries\<close> makes exactly 6 attempts; each attempt starts at least 3000 ms
  after the previous one started: 3000 ms (and what the sleep overshoots) after it
  when the previous attempt took less than 3000 ms, and with no wait, at the end of the
  previous attempt, when that took 3000 ms or more; the error thrown is the one of the
  6th attempt, thrown when that attempt ends.
\<close>

theorem fetchWithRetries_always_failing:
  assumes "\<forall>k < defaultRetries. \<exists>e. doFetch url (result (env k)) = Inl e"
  shows "\<exists>starts finish.
           fetchWithRetries url defaultRetries env now =
             (doFetch url (result (env 5)), starts, finish) \<and>
           length starts = 6 \<and>
           (\<forall>k < 5. starts ! k + 3000 \<le> starts ! Suc k) \<and>
           (\<forall>k < 5. starts ! Suc k =
              (if int (duration (env k)) < 3000
               then starts ! k + 3000 + int (overshoot (env (Suc k)))
               else starts ! k + int (duration (env k)))) \<and>
           finish = starts ! 5 + int (duration (env 5))"
proof -
  let ?S = "startTimes env 0 0 now 6"
  have run: "fetchWithRetries url defaultRetries env now =
          (doFetch url (result (env 5)), ?S, last ?S + int (duration (env 5)))"
    using fetchLoop_all_fail[of 0 6 url env 0 now "[]"] assms
    by (simp add: fetchWithRetries_def defaultRetries_def)
  have len: "length ?S = 6"
    by (rule length_startTimes)
  have step: "?S ! Suc k =
              (if int (duration (env k)) < 3000
               then ?S ! k + 3000 + int (overshoot (env (Suc k)))
               else ?S ! k + int (duration (env k)))" if "k < 5" for k
    using startTimes_Suc_nth[of k 6 env 0 0 now] that by simp
  have spaced: "?S ! k + 3000 \<le> ?S ! Suc k" if "k < 5" for k
    using step[OF that] by (simp split: if_splits)
  have "last ?S = ?S ! 5"
    using last_startTimes[of 6 env 0 0 now] by simp
  with run len step spaced show ?thesis
    by (intro exI[of _ ?S] exI[of _ "last ?S + int (duration (env 5))"]) simp
qed

theorem fetchWithRetries_always_failing_witness:
  "\<exists>starts finish.
      fetchWithRetries ''u'' defaultRetries failingEndpoint 1000000 =
        (Inl (CouldNotFetchUrl ''u''), starts, finish) \<and>
      length starts = 6 \<and>
      (\<forall>k < 5. starts ! k + 3000 \<le> starts ! Suc k)"
proof -
  have h: "\<forall>k < defaultRetries. \<exists>e. doFetch ''u'' (result (failingEndpoint k)) = Inl e"
    by (simp add: doFetch_def failingEndpoint_def)
  have "doFetch ''u'' (result (failingEndpoint 5)) = Inl (CouldNotFetchUrl ''u'')"
    by (simp add: doFetch_def failingEndpoint_def)
  with h fetchWithRetries_always_failing [OF h, of 1000000] show ?thesis
    by auto
qed

subsection \<open>The caches\<close>

lemma downloadDependency_cases:
  obtains (throws) e where "resolveNPMAlias name version = Inl e"
      "downloadDependency x s name version path = (Inl e, s)"
  | (hit) depName depVersion h where "resolveNPMAlias name version = Inr (depName, depVersion)"
      "packages s (depName @ depVersion @ path) = Some h"
      "downloadDependency x s name version path = (Inr h, s)"
  | (miss) depName depVersion where "resolveNPMAlias name version = Inr (depName, depVersion)"
      "packages s (depName @ depVersion @ path) = None"
      "downloadDependency x s name version path =
         (Inr (nextHandle s),
          s\<lparr> packages := (packages s)(depName @ depVersion @ path \<mapsto> nextHandle s),
             packagePromises := (packagePromises s)(nextHandle s \<mapsto> Pending),
             fileChains := (fileChains s)(nextHandle s \<mapsto>
                \<lparr> fc_path = path, fc_name = stripAlias depName,
                  fc_version = depVersion, fc_stage = Primary \<rparr>),
             requests := requests s @
                [FileRequest (getFetchProtocol x depVersion False) (stripAlias depName)
                   depVersion path],
             nextHandle := Suc (nextHandle s) \<rparr>)"
proof (cases "resolveNPMAlias name version")
  case (Inl e)
  then show ?thesis using throws by (simp add: downloadDependency_def)
next
  case (Inr p)
  obtain depName depVersion where p: "p = (depName, depVersion)" by (cases p)
  show ?thesis
  proof (cases "packages s (depName @ depVersion @ path)")
    case None
    with Inr p show ?thesis using miss[of depName depVersion]
      by (simp add: downloadDependency_def Let_def)
  next
    case (Some h)
    with Inr p show ?thesis using hit[of depName depVersion h]
      by (simp add: downloadDependency_def)
  qed
qed

lemma downloadDependency_meta_fields:
  "metas (snd (downloadDependency x s n v p)) = metas s"
  "metaPromises (snd (downloadDependency x s n v p)) = metaPromises s"
  "metaIds (snd (downloadDependency x s n v p)) = metaIds s"
  "metaStages (snd (downloadDependency x s n v p)) = metaStages s"
  by (cases rule: downloadDependency_cases[of n v x s p]; simp)+

lemma downloadDependency_handles:
  "requestHandle ` set (requests (snd (downloadDependency x s n v p))) \<subseteq>
     insert None (requestHandle ` set (requests s))"
  by (cases rule: downloadDependency_cases[of n v x s p]; auto)

lemma downloadDependency_metaRequestsOf:
  "metaRequestsOf (snd (downloadDependency x s n v p)) h = metaRequestsOf s h"
  by (cases rule: downloadDependency_cases[of n v x s p]; simp add: metaRequestsOf_def)

lemma downloadDependency_shaRequestsOf:
  "shaRequestsOf (snd (downloadDependency x s n v p)) h = shaRequestsOf s h"
  by (cases rule: downloadDependency_cases[of n v x s p]; simp add: shaRequestsOf_def)

lemma downloadDependency_metaChainRequests:
  "metaChainRequests (snd (downloadDependency x s n v p)) = metaChainRequests s"
  by (cases rule: downloadDependency_cases[of n v x s p]; simp add: metaChainRequests_def)

lemma downloadDependency_nextHandle:
  "nextHandle s \<le> nextHandle (snd (downloadDependency x s n v p))"
  by (cases rule: downloadDependency_cases[of n v x s p]; simp)

lemma downloadDependency_packages:
  "packages s key = Some h \<Longrightarrow> packages (snd (downloadDependency x s n v p)) key = Some h"
  by (cases rule: downloadDependency_cases[of n v x s p]; auto)

lemma downloadDependency_fresh:
  assumes "fresh s"
  shows "fresh (snd (downloadDependency x s n v p))"
proof (cases rule: downloadDependency_cases[of n v x s p])
  case (miss depName depVersion)
  with assms show ?thesis by (auto simp: fresh_def)
qed (use assms in auto)


lemma downloadDependency_packagesStored:
  "packagesStored s \<Longrightarrow> packagesStored (snd (downloadDependency x s n v p))"
  by (cases rule: downloadDependency_cases[of n v x s p]; auto simp: packagesStored_def)

lemma downloadDependency_inFlightStored:
  "inFlightStored s \<Longrightarrow> inFlightStored (snd (downloadDependency x s n v p))"
  by (simp add: inFlightStored_def metaInFlight_def downloadDependency_meta_fields)

lemma downloadDependency_oneRequest:
  "oneRequest s \<Longrightarrow> oneRequest (snd (downloadDependency x s n v p))"
  by (simp add: oneRequest_def downloadDependency_metaRequestsOf downloadDependency_shaRequestsOf
      downloadDependency_meta_fields)

lemma downloadDependency_wellFormed:
  "wellFormed s \<Longrightarrow> wellFormed (snd (downloadDependency x s n v p))"
  by (simp add: wellFormed_def downloadDependency_fresh downloadDependency_inFlightStored
      downloadDependency_oneRequest downloadDependency_packagesStored)

text \<open>What a call of \<^verbatim>\<open>getMeta\<close> sends at a miss, and the stage its chain starts in.\<close>

lemma getMeta_miss_eq:
  assumes "resolveNPMAlias name version = Inr (depName, depVersion)"
    and "metas s (metaId pjp depName depVersion) = None"
  shows "getMeta x s name pjp version fb =
     (if getFetchProtocol x depVersion fb = jsDelivrNPM \<and> \<not> startsWithDigit depVersion then
        startMeta (snd (downloadDependency x s (stripAlias depName) depVersion ''/package.json''))
          (metaId pjp depName depVersion)
          (AwaitingManifest (stripAlias depName)
             (fst (downloadDependency x s (stripAlias depName) depVersion ''/package.json''))) []
      else if getFetchProtocol x depVersion fb = jsDelivrGH then
        startMeta s (metaId pjp depName depVersion) (AwaitingSha (stripAlias depName) depVersion)
          [ShaRequest (nextHandle s) depVersion]
      else
        startMeta s (metaId pjp depName depVersion) Requested
          [MetaRequest (nextHandle s) (getFetchProtocol x depVersion fb) (stripAlias depName)
             depVersion])"
  using assms by (simp add: getMeta_def Let_def split: prod.splits)

lemma getMeta_cases:
  obtains (throws) e where "resolveNPMAlias name version = Inl e"
      "getMeta x s name pjp version fb = (Inl e, s)"
  | (hit) depName depVersion h where "resolveNPMAlias name version = Inr (depName, depVersion)"
      "metas s (metaId pjp depName depVersion) = Some h"
      "getMeta x s name pjp version fb = (Inr h, s)"
  | (miss) depName depVersion s1 stage sent where
      "resolveNPMAlias name version = Inr (depName, depVersion)"
      "metas s (metaId pjp depName depVersion) = None"
      "s1 = s \<or> s1 = snd (downloadDependency x s (stripAlias depName) depVersion ''/package.json'')"
      "getMeta x s name pjp version fb = startMeta s1 (metaId pjp depName depVersion) stage sent"
      "sent = [] \<or> (\<exists>v. sent = [ShaRequest (nextHandle s1) v]) \<or>
       (stage = Requested \<and> (\<exists>p n v. sent = [MetaRequest (nextHandle s1) p n v]))"
proof (cases "resolveNPMAlias name version")
  case (Inl e)
  then show ?thesis using throws by (simp add: getMeta_def)
next
  case (Inr p)
  obtain depName depVersion where p: "p = (depName, depVersion)" by (cases p)
  show ?thesis
  proof (cases "metas s (metaId pjp depName depVersion)")
    case (Some h)
    with Inr p show ?thesis using hit[of depName depVersion h]
      by (simp add: getMeta_def Let_def)
  next
    case None
    note eq = getMeta_miss_eq[OF Inr[unfolded p] None, of x fb]
    consider (tag) "getFetchProtocol x depVersion fb = jsDelivrNPM \<and> \<not> startsWithDigit depVersion"
      | (gh) "\<not> (getFetchProtocol x depVersion fb = jsDelivrNPM \<and> \<not> startsWithDigit depVersion)"
          "getFetchProtocol x depVersion fb = jsDelivrGH"
      | (direct) "\<not> (getFetchProtocol x depVersion fb = jsDelivrNPM \<and> \<not> startsWithDigit depVersion)"
          "getFetchProtocol x depVersion fb \<noteq> jsDelivrGH"
      by blast
    then show ?thesis
    proof cases
      case tag
      show ?thesis
        by (rule miss[of depName depVersion
              "snd (downloadDependency x s (stripAlias depName) depVersion ''/package.json'')"
              _ "[]"])
           (use Inr p None eq tag in simp_all)
    next
      case gh
      show ?thesis
        by (rule miss[of depName depVersion s _ "[ShaRequest (nextHandle s) depVersion]"])
           (use Inr p None eq gh in simp_all)
    next
      case direct
      show ?thesis
        by (rule miss[of depName depVersion s Requested
              "[MetaRequest (nextHandle s) (getFetchProtocol x depVersion fb) (stripAlias depName)
                  depVersion]"])
           (use Inr p None eq direct in simp_all)
    qed
  qed
qed

lemma startMeta_wellFormed:
  assumes wf: "wellFormed s" and none: "metas s key = None"
    and sent: "sent = [] \<or> (\<exists>v. sent = [ShaRequest (nextHandle s) v]) \<or>
       (stage = Requested \<and> (\<exists>p n v. sent = [MetaRequest (nextHandle s) p n v]))"
  shows "wellFormed (snd (startMeta s key stage sent))"
proof -
  let ?h = "nextHandle s"
  let ?s = "snd (startMeta s key stage sent)"
  have fr: "fresh s" and ifs: "inFlightStored s" and one: "oneRequest s"
    and ps: "packagesStored s"
    using wf by (simp_all add: wellFormed_def)
  have hs: "requestHandle ` set sent \<subseteq> {Some ?h}"
    using sent by auto
  have new: "metaIds s ?h = None" "metaPromises s ?h = None" "metaStages s ?h = None"
    "Some ?h \<notin> requestHandle ` set (requests s)"
    using fr by (simp_all add: fresh_def)
  have "fresh ?s"
    unfolding fresh_def
  proof (intro allI impI)
    fix h assume "nextHandle ?s \<le> h"
    then have h: "?h < h" by (simp add: startMeta_def Let_def)
    then have a: "Some h \<notin> requestHandle ` set sent" using hs by auto
    have b: "Some h \<notin> requestHandle ` set (requests s)"
      using fr h by (simp add: fresh_def)
    have c: "Some h \<notin> requestHandle ` set (requests ?s)"
      using a b by (simp add: startMeta_def Let_def image_Un)
    have d: "metaIds s h = None \<and> metaPromises s h = None \<and> metaStages s h = None \<and>
      packagePromises s h = None \<and> fileChains s h = None"
      using fr h by (simp add: fresh_def)
    from h c d show "metaIds ?s h = None \<and> metaPromises ?s h = None \<and> metaStages ?s h = None \<and>
      packagePromises ?s h = None \<and> fileChains ?s h = None \<and>
      Some h \<notin> requestHandle ` set (requests ?s)"
      by (simp add: startMeta_def Let_def)
  qed
  moreover have "inFlightStored ?s"
    unfolding inFlightStored_def
  proof (intro allI impI)
    fix h k assume a: "metaInFlight ?s h k"
    show "metas ?s k = Some h"
    proof (cases "h = ?h")
      case True
      with a show ?thesis by (simp add: metaInFlight_def startMeta_def Let_def)
    next
      case False
      with a have "metaInFlight s h k" by (simp add: metaInFlight_def startMeta_def Let_def)
      with ifs have m: "metas s k = Some h" by (simp add: inFlightStored_def)
      with none have "k \<noteq> key" by auto
      with m show ?thesis by (simp add: startMeta_def Let_def)
    qed
  qed
  moreover have "oneRequest ?s"
    unfolding oneRequest_def
  proof (intro allI conjI impI)
    fix h
    have old: "metaRequestsOf s ?h = []"
      using new(4) by (auto simp: metaRequestsOf_def filter_empty_conv image_iff)
    have eq: "metaRequestsOf ?s h =
        metaRequestsOf s h @ filter (\<lambda>r. isMetaRequest r \<and> requestHandle r = Some h) sent"
      by (simp add: metaRequestsOf_def startMeta_def Let_def)
    have other: "filter (\<lambda>r. isMetaRequest r \<and> requestHandle r = Some h) sent = []" if "h \<noteq> ?h"
      using that hs by (auto simp: filter_empty_conv)
    show "length (metaRequestsOf ?s h) \<le> 1"
    proof (cases "h = ?h")
      case True
      with sent show ?thesis unfolding eq by (auto simp: old)
    next
      case False
      with one show ?thesis unfolding eq by (simp add: other oneRequest_def)
    qed
    have old': "shaRequestsOf s ?h = []"
      using new(4) by (auto simp: shaRequestsOf_def filter_empty_conv image_iff)
    have eq': "shaRequestsOf ?s h =
        shaRequestsOf s h @ filter (\<lambda>r. \<not> isMetaRequest r \<and> requestHandle r = Some h) sent"
      by (simp add: shaRequestsOf_def startMeta_def Let_def)
    have other': "filter (\<lambda>r. \<not> isMetaRequest r \<and> requestHandle r = Some h) sent = []"
      if "h \<noteq> ?h"
      using that hs by (auto simp: filter_empty_conv)
    show "length (shaRequestsOf ?s h) \<le> 1"
    proof (cases "h = ?h")
      case True
      with sent show ?thesis unfolding eq' by (auto simp: old')
    next
      case False
      with one show ?thesis unfolding eq' by (simp add: other' oneRequest_def)
    qed
    assume ne: "metaRequestsOf ?s h \<noteq> []"
    show "metaStages ?s h = Some Requested"
    proof (cases "h = ?h")
      case True
      with ne sent show ?thesis unfolding eq
        by (auto simp: old startMeta_def Let_def)
    next
      case False
      with ne have "metaRequestsOf s h \<noteq> []" unfolding eq by (simp add: other)
      with one False show ?thesis by (simp add: oneRequest_def startMeta_def Let_def)
    qed
  qed
  moreover have "packagesStored ?s"
    using ps by (simp add: packagesStored_def startMeta_def Let_def)
  ultimately show ?thesis by (simp add: wellFormed_def)
qed

lemma getMeta_wellFormed:
  assumes "wellFormed s"
  shows "wellFormed (snd (getMeta x s n pjp v fb))"
proof (cases rule: getMeta_cases[of n v x s pjp fb])
  case (miss depName depVersion s1 stage sent)
  have "wellFormed s1" using miss(3) assms downloadDependency_wellFormed by auto
  moreover have "metas s1 (metaId pjp depName depVersion) = None"
    using miss(2,3) downloadDependency_meta_fields by auto
  ultimately show ?thesis
    using miss(4,5) startMeta_wellFormed by simp
qed (use assms in auto)

lemma rejectMeta_wellFormed:
  assumes wf: "wellFormed s" and fl: "metaInFlight s h key"
  shows "wellFormed (rejectMeta s h key e)"
proof -
  have fr: "fresh s" and ifs: "inFlightStored s" and one: "oneRequest s"
    and ps: "packagesStored s"
    using wf by (simp_all add: wellFormed_def)
  have lt: "h < nextHandle s"
    using fr fl by (auto simp: fresh_def metaInFlight_def not_le[symmetric])
  have "fresh (rejectMeta s h key e)"
    using fr lt by (auto simp: fresh_def rejectMeta_def)
  moreover have "inFlightStored (rejectMeta s h key e)"
    unfolding inFlightStored_def
  proof (intro allI impI)
    fix h' k assume a: "metaInFlight (rejectMeta s h key e) h' k"
    then have ne: "h' \<noteq> h" by (auto simp: metaInFlight_def rejectMeta_def)
    with a have b: "metaInFlight s h' k" by (simp add: metaInFlight_def rejectMeta_def)
    with ifs have m: "metas s k = Some h'" by (simp add: inFlightStored_def)
    from fl ifs have "metas s key = Some h" by (simp add: inFlightStored_def)
    with m ne have "k \<noteq> key" by auto
    with m show "metas (rejectMeta s h key e) k = Some h'" by (simp add: rejectMeta_def)
  qed
  moreover have "oneRequest (rejectMeta s h key e)"
    using one by (simp add: oneRequest_def metaRequestsOf_def shaRequestsOf_def rejectMeta_def)
  moreover have "packagesStored (rejectMeta s h key e)"
    using ps by (simp add: packagesStored_def rejectMeta_def)
  ultimately show ?thesis by (simp add: wellFormed_def)
qed

lemma resolveMetaUrl_cases:
  obtains (same) "resolveMetaUrl s h answer = s"
  | (reject) key e where "metaInFlight s h key" "metaStages s h \<noteq> Some Requested"
      "resolveMetaUrl s h answer = rejectMeta s h key e"
  | (send) key p n v where "metaInFlight s h key" "metaStages s h \<noteq> Some Requested"
      "metaStages s h \<noteq> None"
      "resolveMetaUrl s h answer =
         s\<lparr> metaStages := (metaStages s)(h \<mapsto> Requested),
            requests := requests s @ [MetaRequest h p n v] \<rparr>"
proof -
  have "resolveMetaUrl s h answer = s \<or>
    (\<exists>key e. metaInFlight s h key \<and> metaStages s h \<noteq> Some Requested \<and>
       resolveMetaUrl s h answer = rejectMeta s h key e) \<or>
    (\<exists>key p n v. metaInFlight s h key \<and> metaStages s h \<noteq> Some Requested \<and>
       metaStages s h \<noteq> None \<and>
       resolveMetaUrl s h answer =
         s\<lparr> metaStages := (metaStages s)(h \<mapsto> Requested),
            requests := requests s @ [MetaRequest h p n v] \<rparr>)"
    by (simp add: resolveMetaUrl_def metaInFlight_def
        split: option.splits metaStage.splits promise.splits sum.splits) blast
  then show thesis using same reject send by blast
qed

lemma settleMeta_cases:
  obtains (same) "settleMeta s h outcome = s"
  | (reject) key e where "metaInFlight s h key" "metaStages s h = Some Requested"
      "outcome = Inl e" "settleMeta s h outcome = rejectMeta s h key e"
  | (fulfil) key doc where "metaInFlight s h key" "metaStages s h = Some Requested"
      "outcome = Inr doc"
      "settleMeta s h outcome = s\<lparr> metaPromises := (metaPromises s)(h \<mapsto> Fulfilled doc) \<rparr>"
proof -
  have "settleMeta s h outcome = s \<or>
    (\<exists>key e. metaInFlight s h key \<and> metaStages s h = Some Requested \<and> outcome = Inl e \<and>
       settleMeta s h outcome = rejectMeta s h key e) \<or>
    (\<exists>key doc. metaInFlight s h key \<and> metaStages s h = Some Requested \<and> outcome = Inr doc \<and>
       settleMeta s h outcome = s\<lparr> metaPromises := (metaPromises s)(h \<mapsto> Fulfilled doc) \<rparr>)"
    by (simp add: settleMeta_def metaInFlight_def
        split: option.splits metaStage.splits promise.splits sum.splits)
  then show thesis using same reject fulfil by blast
qed

lemma send_wellFormed:
  assumes wf: "wellFormed s" and fl: "metaInFlight s h key"
    and st: "metaStages s h \<noteq> Some Requested"
  shows "wellFormed (s\<lparr> metaStages := (metaStages s)(h \<mapsto> Requested),
                        requests := requests s @ [MetaRequest h p n v] \<rparr>)"
    (is "wellFormed ?s")
proof -
  have fr: "fresh s" and ifs: "inFlightStored s" and one: "oneRequest s"
    and ps: "packagesStored s"
    using wf by (simp_all add: wellFormed_def)
  have lt: "h < nextHandle s"
    using fr fl by (auto simp: fresh_def metaInFlight_def not_le[symmetric])
  have "fresh ?s"
    using fr lt by (auto simp: fresh_def)
  moreover have "inFlightStored ?s"
    using ifs by (simp add: inFlightStored_def metaInFlight_def)
  moreover have "oneRequest ?s"
    unfolding oneRequest_def
  proof (intro allI conjI impI)
    fix h'
    have old: "metaRequestsOf s h = []"
      using one st by (auto simp: oneRequest_def)
    have eq: "metaRequestsOf ?s h' =
        metaRequestsOf s h' @ (if h' = h then [MetaRequest h p n v] else [])"
      by (auto simp: metaRequestsOf_def)
    show "length (metaRequestsOf ?s h') \<le> 1"
      using one old unfolding eq by (auto simp: oneRequest_def)
    have "shaRequestsOf ?s h' = shaRequestsOf s h'"
      by (simp add: shaRequestsOf_def)
    then show "length (shaRequestsOf ?s h') \<le> 1"
      using one by (simp add: oneRequest_def)
    assume "metaRequestsOf ?s h' \<noteq> []"
    then show "metaStages ?s h' = Some Requested"
      using one unfolding eq by (auto simp: oneRequest_def)
  qed
  moreover have "packagesStored ?s"
    using ps by (simp add: packagesStored_def)
  ultimately show ?thesis by (simp add: wellFormed_def)
qed

lemma resolveMetaUrl_wellFormed:
  assumes "wellFormed s"
  shows "wellFormed (resolveMetaUrl s h answer)"
proof (cases rule: resolveMetaUrl_cases[of s h answer])
  case same
  with assms show ?thesis by simp
next
  case (reject key e)
  with assms rejectMeta_wellFormed show ?thesis by simp
next
  case (send key p n v)
  with assms send_wellFormed show ?thesis by simp
qed

lemma settleMeta_wellFormed:
  assumes wf: "wellFormed s"
  shows "wellFormed (settleMeta s h outcome)"
proof (cases rule: settleMeta_cases[of s h outcome])
  case same
  with assms show ?thesis by simp
next
  case (reject key e)
  with assms rejectMeta_wellFormed show ?thesis by simp
next
  case (fulfil key doc)
  have fr: "fresh s" and ifs: "inFlightStored s" and one: "oneRequest s"
    and ps: "packagesStored s"
    using wf by (simp_all add: wellFormed_def)
  have lt: "h < nextHandle s"
    using fr fulfil(1) by (auto simp: fresh_def metaInFlight_def not_le[symmetric])
  let ?s = "s\<lparr> metaPromises := (metaPromises s)(h \<mapsto> Fulfilled doc) \<rparr>"
  have "fresh ?s" using fr lt by (auto simp: fresh_def)
  moreover have "inFlightStored ?s"
    using ifs by (auto simp: inFlightStored_def metaInFlight_def split: if_splits)
  moreover have "oneRequest ?s"
    using one by (simp add: oneRequest_def metaRequestsOf_def shaRequestsOf_def)
  moreover have "packagesStored ?s"
    using ps by (simp add: packagesStored_def)
  ultimately show ?thesis using fulfil(4) by (simp add: wellFormed_def)
qed

lemma settleFile_cases:
  obtains (same) "settleFile x s h outcome = s"
  | (fulfil) c code where "fileChains s h = Some c" "packagePromises s h = Some Pending"
      "outcome = Inr code"
      "settleFile x s h outcome =
         s\<lparr> packagePromises := (packagePromises s)(h \<mapsto>
              Fulfilled \<lparr> m_path = fc_path c, m_code = code, m_requires = None,
                          m_stubbed = None, m_downloaded = Some True \<rparr>) \<rparr>"
  | (retry) c e where "fileChains s h = Some c" "packagePromises s h = Some Pending"
      "outcome = Inl e" "fc_stage c = Primary"
      "settleFile x s h outcome =
         s\<lparr> fileChains := (fileChains s)(h \<mapsto> c\<lparr> fc_stage := Fallback \<rparr>),
            requests := requests s @
              [FileRequest (getFetchProtocol x (fc_version c) True)
                 (fc_name c) (fc_version c) (fc_path c)] \<rparr>"
  | (reject) c e where "fileChains s h = Some c" "packagePromises s h = Some Pending"
      "outcome = Inl e" "fc_stage c = Fallback"
      "settleFile x s h outcome = s\<lparr> packagePromises := (packagePromises s)(h \<mapsto> Rejected e) \<rparr>"
proof -
  have "settleFile x s h outcome = s \<or>
    (\<exists>c code. fileChains s h = Some c \<and> packagePromises s h = Some Pending \<and>
       outcome = Inr code \<and>
       settleFile x s h outcome =
         s\<lparr> packagePromises := (packagePromises s)(h \<mapsto>
              Fulfilled \<lparr> m_path = fc_path c, m_code = code, m_requires = None,
                          m_stubbed = None, m_downloaded = Some True \<rparr>) \<rparr>) \<or>
    (\<exists>c e. fileChains s h = Some c \<and> packagePromises s h = Some Pending \<and>
       outcome = Inl e \<and> fc_stage c = Primary \<and>
       settleFile x s h outcome =
         s\<lparr> fileChains := (fileChains s)(h \<mapsto> c\<lparr> fc_stage := Fallback \<rparr>),
            requests := requests s @
              [FileRequest (getFetchProtocol x (fc_version c) True)
                 (fc_name c) (fc_version c) (fc_path c)] \<rparr>) \<or>
    (\<exists>c e. fileChains s h = Some c \<and> packagePromises s h = Some Pending \<and>
       outcome = Inl e \<and> fc_stage c = Fallback \<and>
       settleFile x s h outcome =
         s\<lparr> packagePromises := (packagePromises s)(h \<mapsto> Rejected e) \<rparr>)"
    by (simp add: settleFile_def
        split: option.splits promise.splits sum.splits stage.splits)
  then show thesis using same fulfil retry reject by blast
qed

lemma settleFile_meta_fields:
  "metas (settleFile x s h outcome) = metas s"
  "metaPromises (settleFile x s h outcome) = metaPromises s"
  "metaIds (settleFile x s h outcome) = metaIds s"
  "metaStages (settleFile x s h outcome) = metaStages s"
  "packages (settleFile x s h outcome) = packages s"
  "nextHandle (settleFile x s h outcome) = nextHandle s"
  by (cases rule: settleFile_cases[of x s h outcome]; simp)+

lemma settleFile_metaRequestsOf:
  "metaRequestsOf (settleFile x s h outcome) h' = metaRequestsOf s h'"
  by (cases rule: settleFile_cases[of x s h outcome]; simp add: metaRequestsOf_def)

lemma settleFile_shaRequestsOf:
  "shaRequestsOf (settleFile x s h outcome) h' = shaRequestsOf s h'"
  by (cases rule: settleFile_cases[of x s h outcome]; simp add: shaRequestsOf_def)

lemma settleFile_metaChainRequests:
  "metaChainRequests (settleFile x s h outcome) = metaChainRequests s"
  by (cases rule: settleFile_cases[of x s h outcome]; simp add: metaChainRequests_def)


lemma settleFile_rejected:
  "packagePromises s h' = Some (Rejected e) \<Longrightarrow>
   packagePromises (settleFile x s h outcome) h' = Some (Rejected e)"
  by (cases rule: settleFile_cases[of x s h outcome]; auto)

lemma settleFile_wellFormed:
  assumes wf: "wellFormed s"
  shows "wellFormed (settleFile x s h outcome)"
proof -
  have fr: "fresh s" and ifs: "inFlightStored s" and one: "oneRequest s"
    and ps: "packagesStored s"
    using wf by (simp_all add: wellFormed_def)
  have lt: "h < nextHandle s" if "packagePromises s h = Some Pending"
    using fr that by (auto simp: fresh_def not_le[symmetric])
  have "fresh (settleFile x s h outcome)"
    by (cases rule: settleFile_cases[of x s h outcome]) (use fr lt in \<open>auto simp: fresh_def\<close>)
  moreover have "inFlightStored (settleFile x s h outcome)"
    using ifs by (simp add: inFlightStored_def metaInFlight_def settleFile_meta_fields)
  moreover have "oneRequest (settleFile x s h outcome)"
    using one
    by (simp add: oneRequest_def settleFile_metaRequestsOf settleFile_shaRequestsOf
        settleFile_meta_fields)
  moreover have "packagesStored (settleFile x s h outcome)"
    by (cases rule: settleFile_cases[of x s h outcome])
       (use ps in \<open>auto simp: packagesStored_def\<close>)
  ultimately show ?thesis by (simp add: wellFormed_def)
qed

lemma step_wellFormed: "wellFormed s \<Longrightarrow> wellFormed (step x s ev)"
  by (cases ev)
     (simp_all add: getMeta_wellFormed downloadDependency_wellFormed resolveMetaUrl_wellFormed
        settleMeta_wellFormed settleFile_wellFormed)

lemma run_wellFormed: "wellFormed s \<Longrightarrow> wellFormed (run x s evs)"
  unfolding run_def by (induction evs arbitrary: s) (simp_all add: step_wellFormed)

lemma emptyStore_wellFormed: "wellFormed emptyStore"
  by (simp add: wellFormed_def fresh_def inFlightStored_def oneRequest_def packagesStored_def
      metaInFlight_def metaRequestsOf_def shaRequestsOf_def emptyStore_def)

lemma reachable_wellFormed: "wellFormed (run x emptyStore evs)"
  by (rule run_wellFormed[OF emptyStore_wellFormed])

lemma run_append: "run x s (evs @ evs') = run x (run x s evs) evs'"
  by (simp add: run_def)

lemma run_Cons: "run x s (ev # evs) = run x (step x s ev) evs"
  by (simp add: run_def)

lemma run_Nil: "run x s [] = s"
  by (simp add: run_def)

text \<open>An entry of \<^verbatim>\<open>packages\<close> stays, and a settled download stays settled.\<close>

lemma getMeta_packages:
  "packages s key = Some h \<Longrightarrow> packages (snd (getMeta x s n pjp v fb)) key = Some h"
proof (cases rule: getMeta_cases[of n v x s pjp fb])
  case (miss depName depVersion s1 stage sent)
  assume a: "packages s key = Some h"
  have "packages s1 key = Some h" using miss(3) a downloadDependency_packages by auto
  then show ?thesis using miss(4) by (simp add: startMeta_def Let_def)
qed auto

lemma resolveMetaUrl_package_fields:
  "packages (resolveMetaUrl s h a) = packages s"
  "packagePromises (resolveMetaUrl s h a) = packagePromises s"
  "fileChains (resolveMetaUrl s h a) = fileChains s"
  "nextHandle (resolveMetaUrl s h a) = nextHandle s"
  by (cases rule: resolveMetaUrl_cases[of s h a]; simp add: rejectMeta_def)+

lemma settleMeta_package_fields:
  "packages (settleMeta s h a) = packages s"
  "packagePromises (settleMeta s h a) = packagePromises s"
  "fileChains (settleMeta s h a) = fileChains s"
  "nextHandle (settleMeta s h a) = nextHandle s"
  by (cases rule: settleMeta_cases[of s h a]; simp add: rejectMeta_def)+

lemma step_packages:
  "packages s key = Some h \<Longrightarrow> packages (step x s ev) key = Some h"
  by (cases ev)
     (simp_all add: getMeta_packages downloadDependency_packages resolveMetaUrl_package_fields
        settleMeta_package_fields settleFile_meta_fields)

lemma run_packages:
  "packages s key = Some h \<Longrightarrow> packages (run x s evs) key = Some h"
  unfolding run_def by (induction evs arbitrary: s) (simp_all add: step_packages)




lemma startMeta_eq:
  "startMeta s1 key stage sent = (Inr (nextHandle s1), snd (startMeta s1 key stage sent))"
  by (simp add: startMeta_def Let_def)

lemma startMeta_fields:
  "metas (snd (startMeta s1 key stage sent)) key = Some (nextHandle s1)"
  "metaInFlight (snd (startMeta s1 key stage sent)) (nextHandle s1) key"
  "h0 < nextHandle s1 \<Longrightarrow> metaPromises (snd (startMeta s1 key stage sent)) h0 = metaPromises s1 h0"
  "metaStages (snd (startMeta s1 key stage sent)) (nextHandle s1) = Some stage"
  "metaIds (snd (startMeta s1 key stage sent)) (nextHandle s1) = Some key"
  "metaPromises (snd (startMeta s1 key stage sent)) (nextHandle s1) = Some Pending"
  "packages (snd (startMeta s1 key stage sent)) = packages s1"
  "packagePromises (snd (startMeta s1 key stage sent)) = packagePromises s1"
  "requests (snd (startMeta s1 key stage sent)) = requests s1 @ sent"
  by (simp_all add: startMeta_def Let_def metaInFlight_def)

lemma getMeta_miss_tag:
  assumes "resolveNPMAlias name version = Inr (depName, depVersion)"
    and "metas s (metaId pjp depName depVersion) = None"
    and "getFetchProtocol x depVersion fb = jsDelivrNPM" and "\<not> startsWithDigit depVersion"
  shows "getMeta x s name pjp version fb =
     startMeta (snd (downloadDependency x s (stripAlias depName) depVersion ''/package.json''))
       (metaId pjp depName depVersion)
       (AwaitingManifest (stripAlias depName)
          (fst (downloadDependency x s (stripAlias depName) depVersion ''/package.json''))) []"
  unfolding getMeta_miss_eq[OF assms(1,2)] using assms(3,4) by simp

lemma getMeta_miss_gh:
  assumes "resolveNPMAlias name version = Inr (depName, depVersion)"
    and "metas s (metaId pjp depName depVersion) = None"
    and "getFetchProtocol x depVersion fb = jsDelivrGH"
  shows "getMeta x s name pjp version fb =
     startMeta s (metaId pjp depName depVersion) (AwaitingSha (stripAlias depName) depVersion)
       [ShaRequest (nextHandle s) depVersion]"
  unfolding getMeta_miss_eq[OF assms(1,2)] using assms(3) by simp

lemma getMeta_miss_direct:
  assumes "resolveNPMAlias name version = Inr (depName, depVersion)"
    and "metas s (metaId pjp depName depVersion) = None"
    and "getFetchProtocol x depVersion fb \<noteq> jsDelivrGH"
    and "getFetchProtocol x depVersion fb = jsDelivrNPM \<longrightarrow> startsWithDigit depVersion"
  shows "getMeta x s name pjp version fb =
     startMeta s (metaId pjp depName depVersion) Requested
       [MetaRequest (nextHandle s) (getFetchProtocol x depVersion fb) (stripAlias depName)
          depVersion]"
  unfolding getMeta_miss_eq[OF assms(1,2)] using assms(3,4) by auto

lemma getMeta_miss:
  assumes al: "resolveNPMAlias name version = Inr (depName, depVersion)"
    and none: "metas s (metaId pjp depName depVersion) = None"
    and protocol: "protocol = getFetchProtocol x depVersion fb"
  shows "\<exists>h s'. getMeta x s name pjp version fb = (Inr h, s') \<and>
           nextHandle s \<le> h \<and>
           metas s' (metaId pjp depName depVersion) = Some h \<and>
           metaInFlight s' h (metaId pjp depName depVersion) \<and>
           (\<forall>h0. h0 < nextHandle s \<longrightarrow> metaPromises s' h0 = metaPromises s h0) \<and>
           filter isMetaRequest (requests s') =
             filter isMetaRequest (requests s) @
               (if protocol = jsDelivrGH \<or> (protocol = jsDelivrNPM \<and> \<not> startsWithDigit depVersion)
                then []
                else [MetaRequest h protocol (stripAlias depName) depVersion]) \<and>
           metaChainRequests s' =
             metaChainRequests s @
               (if protocol = jsDelivrNPM \<and> \<not> startsWithDigit depVersion then []
                else if protocol = jsDelivrGH then [ShaRequest h depVersion]
                else [MetaRequest h protocol (stripAlias depName) depVersion])"
proof -
  let ?d = "downloadDependency x s (stripAlias depName) depVersion ''/package.json''"
  let ?key = "metaId pjp depName depVersion"
  consider (tag) "protocol = jsDelivrNPM" "\<not> startsWithDigit depVersion"
    | (gh) "protocol = jsDelivrGH"
    | (direct) "protocol = jsDelivrNPM \<longrightarrow> startsWithDigit depVersion" "protocol \<noteq> jsDelivrGH"
    by blast
  then show ?thesis
  proof cases
    case tag
    let ?stage = "AwaitingManifest (stripAlias depName) (fst ?d)"
    let ?s' = "snd (startMeta (snd ?d) ?key ?stage [])"
    have d1: "nextHandle s \<le> nextHandle (snd ?d)" by (rule downloadDependency_nextHandle)
    have d2: "metaPromises (snd ?d) = metaPromises s" by (rule downloadDependency_meta_fields)
    have d3: "metaChainRequests (snd ?d) = metaChainRequests s"
      by (rule downloadDependency_metaChainRequests)
    have d4: "filter isMetaRequest (requests (snd ?d)) = filter isMetaRequest (requests s)"
      by (cases rule: downloadDependency_cases[of "stripAlias depName" depVersion x s
            "''/package.json''"]; simp)
    have call: "getMeta x s name pjp version fb = (Inr (nextHandle (snd ?d)), ?s')"
      using getMeta_miss_tag[OF al none] tag protocol startMeta_eq by simp
    have old: "\<forall>h0. h0 < nextHandle s \<longrightarrow> metaPromises ?s' h0 = metaPromises s h0"
      using d1 d2 by (simp add: startMeta_fields)
    have r1: "filter isMetaRequest (requests ?s') = filter isMetaRequest (requests s) @ []"
      using d4 by (simp add: startMeta_fields)
    have r2: "metaChainRequests ?s' = metaChainRequests s @ []"
      using d3 by (simp add: startMeta_fields metaChainRequests_def)
    have "getMeta x s name pjp version fb = (Inr (nextHandle (snd ?d)), ?s') \<and>
           nextHandle s \<le> nextHandle (snd ?d) \<and>
           metas ?s' ?key = Some (nextHandle (snd ?d)) \<and>
           metaInFlight ?s' (nextHandle (snd ?d)) ?key \<and>
           (\<forall>h0. h0 < nextHandle s \<longrightarrow> metaPromises ?s' h0 = metaPromises s h0) \<and>
           filter isMetaRequest (requests ?s') = filter isMetaRequest (requests s) @ [] \<and>
           metaChainRequests ?s' = metaChainRequests s @ []"
      using call d1 old r1 r2 startMeta_fields(1,2) by blast
    then show ?thesis using tag by (intro exI[of _ "nextHandle (snd ?d)"] exI[of _ ?s']) simp
  next
    case gh
    let ?sent = "[ShaRequest (nextHandle s) depVersion]"
    let ?s' = "snd (startMeta s ?key (AwaitingSha (stripAlias depName) depVersion) ?sent)"
    have call: "getMeta x s name pjp version fb = (Inr (nextHandle s), ?s')"
      using getMeta_miss_gh[OF al none] gh protocol startMeta_eq by simp
    have r1: "filter isMetaRequest (requests ?s') = filter isMetaRequest (requests s) @ []"
      by (simp add: startMeta_fields)
    have r2: "metaChainRequests ?s' = metaChainRequests s @ ?sent"
      by (simp add: startMeta_fields metaChainRequests_def)
    have "getMeta x s name pjp version fb = (Inr (nextHandle s), ?s') \<and>
           nextHandle s \<le> nextHandle s \<and>
           metas ?s' ?key = Some (nextHandle s) \<and>
           metaInFlight ?s' (nextHandle s) ?key \<and>
           (\<forall>h0. h0 < nextHandle s \<longrightarrow> metaPromises ?s' h0 = metaPromises s h0) \<and>
           filter isMetaRequest (requests ?s') = filter isMetaRequest (requests s) @ [] \<and>
           metaChainRequests ?s' = metaChainRequests s @ ?sent"
      using call r1 r2 startMeta_fields(1,2,3) by blast
    then show ?thesis using gh by (intro exI[of _ "nextHandle s"] exI[of _ ?s']) simp
  next
    case direct
    let ?sent = "[MetaRequest (nextHandle s) protocol (stripAlias depName) depVersion]"
    let ?s' = "snd (startMeta s ?key Requested ?sent)"
    have call: "getMeta x s name pjp version fb = (Inr (nextHandle s), ?s')"
      using getMeta_miss_direct[OF al none] direct protocol startMeta_eq by simp
    have r1: "filter isMetaRequest (requests ?s') = filter isMetaRequest (requests s) @ ?sent"
      by (simp add: startMeta_fields)
    have r2: "metaChainRequests ?s' = metaChainRequests s @ ?sent"
      by (simp add: startMeta_fields metaChainRequests_def)
    have "getMeta x s name pjp version fb = (Inr (nextHandle s), ?s') \<and>
           nextHandle s \<le> nextHandle s \<and>
           metas ?s' ?key = Some (nextHandle s) \<and>
           metaInFlight ?s' (nextHandle s) ?key \<and>
           (\<forall>h0. h0 < nextHandle s \<longrightarrow> metaPromises ?s' h0 = metaPromises s h0) \<and>
           filter isMetaRequest (requests ?s') = filter isMetaRequest (requests s) @ ?sent \<and>
           metaChainRequests ?s' = metaChainRequests s @ ?sent"
      using call r1 r2 startMeta_fields(1,2,3) by blast
    then show ?thesis using direct by (intro exI[of _ "nextHandle s"] exI[of _ ?s']) auto
  qed
qed

text \<open>
  C4. In every state the caches can reach from the empty ones, for every key
  \<^verbatim>\<open>(packageJSONPath || depName)@depVersion\<close>: a call of \<^verbatim>\<open>getMeta\<close> that finds no entry
  starts one chain and stores its pending promise under the key; the request for the
  document is sent with the call, except by the backend \<^verbatim>\<open>jsDelivrGH\<close>, which first
  looks the latest commit up, and by \<^verbatim>\<open>jsDelivrNPM\<close> for a version that does not start
  with a digit, which first awaits the download of \<^verbatim>\<open>/package.json\<close>. A call that finds
  an entry returns the stored promise and changes nothing (no request is sent). At most
  one chain for the key is in flight, and no chain ever sends more than one request for
  its document, nor more than one lookup.
\<close>

theorem getMeta_one_request_per_key:
  assumes "s = run x emptyStore evs"
    and "resolveNPMAlias name version = Inr (depName, depVersion)"
    and "key = metaId packageJSONPath depName depVersion"
    and "protocol = getFetchProtocol x depVersion useFallback"
  shows "(metas s key = None \<longrightarrow>
            (\<exists>h s'. getMeta x s name packageJSONPath version useFallback = (Inr h, s') \<and>
               metas s' key = Some h \<and> metaInFlight s' h key \<and>
               filter isMetaRequest (requests s') =
                 filter isMetaRequest (requests s) @
                   (if protocol = jsDelivrGH \<or>
                       (protocol = jsDelivrNPM \<and> \<not> startsWithDigit depVersion)
                    then []
                    else [MetaRequest h protocol (stripAlias depName) depVersion]) \<and>
               metaChainRequests s' =
                 metaChainRequests s @
                   (if protocol = jsDelivrNPM \<and> \<not> startsWithDigit depVersion then []
                    else if protocol = jsDelivrGH then [ShaRequest h depVersion]
                    else [MetaRequest h protocol (stripAlias depName) depVersion]))) \<and>
         (\<forall>h. metas s key = Some h \<longrightarrow>
            getMeta x s name packageJSONPath version useFallback = (Inr h, s)) \<and>
         (\<forall>h1 h2. metaInFlight s h1 key \<and> metaInFlight s h2 key \<longrightarrow> h1 = h2) \<and>
         (\<forall>h. length (metaRequestsOf s h) \<le> 1 \<and> length (shaRequestsOf s h) \<le> 1)"
proof -
  have wf: "wellFormed s" using assms(1) reachable_wellFormed by simp
  have a1: "metas s key = None \<longrightarrow>
            (\<exists>h s'. getMeta x s name packageJSONPath version useFallback = (Inr h, s') \<and>
               metas s' key = Some h \<and> metaInFlight s' h key \<and>
               filter isMetaRequest (requests s') =
                 filter isMetaRequest (requests s) @
                   (if protocol = jsDelivrGH \<or>
                       (protocol = jsDelivrNPM \<and> \<not> startsWithDigit depVersion)
                    then []
                    else [MetaRequest h protocol (stripAlias depName) depVersion]) \<and>
               metaChainRequests s' =
                 metaChainRequests s @
                   (if protocol = jsDelivrNPM \<and> \<not> startsWithDigit depVersion then []
                    else if protocol = jsDelivrGH then [ShaRequest h depVersion]
                    else [MetaRequest h protocol (stripAlias depName) depVersion]))"
  proof
    assume "metas s key = None"
    then have none: "metas s (metaId packageJSONPath depName depVersion) = None"
      using assms(3) by simp
    from getMeta_miss[OF assms(2) none assms(4)]
    show "\<exists>h s'. getMeta x s name packageJSONPath version useFallback = (Inr h, s') \<and>
               metas s' key = Some h \<and> metaInFlight s' h key \<and>
               filter isMetaRequest (requests s') =
                 filter isMetaRequest (requests s) @
                   (if protocol = jsDelivrGH \<or>
                       (protocol = jsDelivrNPM \<and> \<not> startsWithDigit depVersion)
                    then []
                    else [MetaRequest h protocol (stripAlias depName) depVersion]) \<and>
               metaChainRequests s' =
                 metaChainRequests s @
                   (if protocol = jsDelivrNPM \<and> \<not> startsWithDigit depVersion then []
                    else if protocol = jsDelivrGH then [ShaRequest h depVersion]
                    else [MetaRequest h protocol (stripAlias depName) depVersion])"
      unfolding assms(3)
      apply (elim exE conjE)
      apply (intro exI conjI)
          apply assumption+
      done
  qed
  have a2: "\<forall>h. metas s key = Some h \<longrightarrow>
            getMeta x s name packageJSONPath version useFallback = (Inr h, s)"
    using assms(2,3) by (simp add: getMeta_def Let_def)
  have a3: "\<forall>h1 h2. metaInFlight s h1 key \<and> metaInFlight s h2 key \<longrightarrow> h1 = h2"
  proof (intro allI impI)
    fix h1 h2 assume "metaInFlight s h1 key \<and> metaInFlight s h2 key"
    with wf have "metas s key = Some h1" "metas s key = Some h2"
      by (simp_all add: wellFormed_def inFlightStored_def)
    then show "h1 = h2" by simp
  qed
  have a4: "\<forall>h. length (metaRequestsOf s h) \<le> 1 \<and> length (shaRequestsOf s h) \<le> 1"
    using wf by (simp add: wellFormed_def oneRequest_def)
  show ?thesis by (rule conjI[OF a1 conjI[OF a2 conjI[OF a3 a4]]])
qed


lemma getMeta_old_promises:
  assumes "h < nextHandle s"
  shows "metaPromises (snd (getMeta x s n pjp v fb)) h = metaPromises s h"
    and "metaIds (snd (getMeta x s n pjp v fb)) h = metaIds s h"
    and "metaStages (snd (getMeta x s n pjp v fb)) h = metaStages s h"
proof -
  have "metaPromises (snd (getMeta x s n pjp v fb)) h = metaPromises s h \<and>
        metaIds (snd (getMeta x s n pjp v fb)) h = metaIds s h \<and>
        metaStages (snd (getMeta x s n pjp v fb)) h = metaStages s h"
  proof (cases rule: getMeta_cases[of n v x s pjp fb])
    case (miss depName depVersion s1 stage sent)
    have le: "nextHandle s \<le> nextHandle s1"
      using miss(3) downloadDependency_nextHandle by auto
    have same: "metaPromises s1 = metaPromises s" "metaIds s1 = metaIds s"
      "metaStages s1 = metaStages s"
      using miss(3) downloadDependency_meta_fields by auto
    show ?thesis
      using miss(4) le assms same by (simp add: startMeta_def Let_def)
  qed auto
  then show "metaPromises (snd (getMeta x s n pjp v fb)) h = metaPromises s h"
    and "metaIds (snd (getMeta x s n pjp v fb)) h = metaIds s h"
    and "metaStages (snd (getMeta x s n pjp v fb)) h = metaStages s h"
    by simp_all
qed

text \<open>A chain in flight is rejected only by its \<^verbatim>\<open>catch\<close> handler, which removes the entry.\<close>

lemma step_rejects:
  assumes wf: "wellFormed s" and fl: "metaInFlight s h key"
    and rej: "metaPromises (step x s ev) h = Some (Rejected e)"
  shows "metas (step x s ev) key = None"
proof -
  have lt: "h < nextHandle s"
    using wf fl by (auto simp: wellFormed_def fresh_def metaInFlight_def not_le[symmetric])
  have pend: "metaPromises s h = Some Pending" and hid: "metaIds s h = Some key"
    using fl by (simp_all add: metaInFlight_def)
  show ?thesis
  proof (cases ev)
    case (CallGetMeta n pjp v fb)
    with rej lt pend show ?thesis by (simp add: getMeta_old_promises)
  next
    case (CallDownloadDependency n v p)
    with rej pend show ?thesis by (simp add: downloadDependency_meta_fields)
  next
    case (ResolveMetaUrl h2 a)
    show ?thesis
    proof (cases rule: resolveMetaUrl_cases[of s h2 a])
      case same
      with rej pend ResolveMetaUrl show ?thesis by simp
    next
      case (reject key2 e2)
      show ?thesis
      proof (cases "h2 = h")
        case True
        with reject(1) hid have "key2 = key" by (simp add: metaInFlight_def)
        with reject(3) ResolveMetaUrl show ?thesis by (simp add: rejectMeta_def)
      next
        case False
        with reject(3) rej pend ResolveMetaUrl show ?thesis by (simp add: rejectMeta_def)
      qed
    next
      case (send key2 p n v)
      with rej pend ResolveMetaUrl show ?thesis by simp
    qed
  next
    case (SettleMeta h2 a)
    show ?thesis
    proof (cases rule: settleMeta_cases[of s h2 a])
      case same
      with rej pend SettleMeta show ?thesis by simp
    next
      case (reject key2 e2)
      show ?thesis
      proof (cases "h2 = h")
        case True
        with reject(1) hid have "key2 = key" by (simp add: metaInFlight_def)
        with reject(4) SettleMeta show ?thesis by (simp add: rejectMeta_def)
      next
        case False
        with reject(4) rej pend SettleMeta show ?thesis by (simp add: rejectMeta_def)
      qed
    next
      case (fulfil key2 doc)
      with rej pend SettleMeta show ?thesis by (cases "h2 = h") simp_all
    qed
  next
    case (SettleFile h2 a)
    with rej pend show ?thesis by (simp add: settleFile_meta_fields)
  qed
qed

text \<open>
  A chain that awaits a download which has been rejected never sends a request for its
  document.
\<close>

lemma resolveMetaUrl_stalled:
  assumes "metaStages s h = Some (AwaitingManifest n (Inr p))"
    and "packagePromises s p = Some (Rejected e)"
  shows "resolveMetaUrl s h a = s \<or> (\<exists>key. resolveMetaUrl s h a = rejectMeta s h key e)"
  using assms by (auto simp: resolveMetaUrl_def split: option.splits promise.splits)

lemma downloadDependency_rejected:
  "fresh s \<Longrightarrow> packagePromises s h = Some (Rejected e) \<Longrightarrow>
   packagePromises (snd (downloadDependency x s n v p)) h = Some (Rejected e)"
  by (cases rule: downloadDependency_cases[of n v x s p]; auto simp: fresh_def)

lemma getMeta_rejected:
  assumes "fresh s" "packagePromises s h = Some (Rejected e)"
  shows "packagePromises (snd (getMeta x s n pjp v fb)) h = Some (Rejected e)"
proof (cases rule: getMeta_cases[of n v x s pjp fb])
  case (miss depName depVersion s1 stage sent)
  have "packagePromises s1 h = Some (Rejected e)"
    using miss(3) assms downloadDependency_rejected by auto
  then show ?thesis using miss(4) by (simp add: startMeta_def Let_def)
qed (use assms in auto)

lemma getMeta_old_metaRequestsOf:
  assumes "h < nextHandle s"
  shows "metaRequestsOf (snd (getMeta x s n pjp v fb)) h = metaRequestsOf s h"
proof (cases rule: getMeta_cases[of n v x s pjp fb])
  case (miss depName depVersion s1 stage sent)
  have le: "nextHandle s \<le> nextHandle s1"
    using miss(3) downloadDependency_nextHandle by auto
  have same: "metaRequestsOf s1 h = metaRequestsOf s h"
    using miss(3) downloadDependency_metaRequestsOf by auto
  have "filter (\<lambda>r. isMetaRequest r \<and> requestHandle r = Some h) sent = []"
    using miss(5) le assms by auto
  then have "metaRequestsOf (snd (startMeta s1 (metaId pjp depName depVersion) stage sent)) h
      = metaRequestsOf s1 h"
    by (simp add: metaRequestsOf_def startMeta_def Let_def)
  with same miss(4) show ?thesis by simp
qed auto

lemma stalled_step:
  assumes wf: "wellFormed s"
    and st: "metaStages s h = Some (AwaitingManifest n (Inr p))"
    and rj: "packagePromises s p = Some (Rejected e)"
    and no: "metaRequestsOf s h = []"
  shows "metaStages (step x s ev) h = Some (AwaitingManifest n (Inr p)) \<and>
         packagePromises (step x s ev) p = Some (Rejected e) \<and>
         metaRequestsOf (step x s ev) h = []"
proof -
  have fr: "fresh s" using wf by (simp add: wellFormed_def)
  have lt: "h < nextHandle s"
    using fr st by (auto simp: fresh_def not_le[symmetric])
  show ?thesis
  proof (cases ev)
    case (CallGetMeta n' pjp v fb)
    with st rj no lt fr show ?thesis
      by (simp add: getMeta_old_promises getMeta_rejected getMeta_old_metaRequestsOf)
  next
    case (CallDownloadDependency n' v p')
    with st rj no fr show ?thesis
      by (simp add: downloadDependency_meta_fields downloadDependency_rejected
          downloadDependency_metaRequestsOf)
  next
    case (ResolveMetaUrl h2 a)
    show ?thesis
    proof (cases "h2 = h")
      case True
      from resolveMetaUrl_stalled[OF st rj, of a]
      show ?thesis using ResolveMetaUrl True st rj no
        by (auto simp: rejectMeta_def metaRequestsOf_def)
    next
      case False
      show ?thesis
      proof (cases rule: resolveMetaUrl_cases[of s h2 a])
        case same
        with ResolveMetaUrl st rj no show ?thesis by simp
      next
        case (reject key e2)
        with ResolveMetaUrl st rj no show ?thesis
          by (simp add: rejectMeta_def metaRequestsOf_def)
      next
        case (send key p' n' v)
        with ResolveMetaUrl st rj no False show ?thesis
          by (simp add: metaRequestsOf_def)
      qed
    qed
  next
    case (SettleMeta h2 a)
    show ?thesis
    proof (cases rule: settleMeta_cases[of s h2 a])
      case same
      with SettleMeta st rj no show ?thesis by simp
    next
      case (reject key e2)
      with SettleMeta st rj no show ?thesis
        by (simp add: rejectMeta_def metaRequestsOf_def)
    next
      case (fulfil key doc)
      with SettleMeta st rj no show ?thesis
        by (simp add: metaRequestsOf_def)
    qed
  next
    case (SettleFile h2 a)
    with st rj no show ?thesis
      by (simp add: settleFile_meta_fields settleFile_rejected settleFile_metaRequestsOf)
  qed
qed

lemma stalled_run:
  assumes "wellFormed s"
    and "metaStages s h = Some (AwaitingManifest n (Inr p))"
    and "packagePromises s p = Some (Rejected e)"
    and "metaRequestsOf s h = []"
  shows "metaRequestsOf (run x s evs) h = []"
  using assms
proof (induction evs arbitrary: s)
  case Nil
  then show ?case by (simp add: run_Nil)
next
  case (Cons ev evs)
  have "wellFormed (step x s ev)" using Cons.prems(1) by (rule step_wellFormed)
  moreover note stalled_step[OF Cons.prems, of x ev]
  ultimately show ?case using Cons.IH[of "step x s ev"] by (simp add: run_Cons)
qed

lemma settleFile_last_failure:
  assumes "fileChains s h = Some c" "fc_stage c = Fallback" "packagePromises s h = Some Pending"
  shows "settleFile x s h (Inl e) = s\<lparr> packagePromises := (packagePromises s)(h \<mapsto> Rejected e) \<rparr>"
  using assms by (simp add: settleFile_def)

lemma step_rejected:
  "wellFormed s \<Longrightarrow> packagePromises s h = Some (Rejected e) \<Longrightarrow>
   packagePromises (step x s ev) h = Some (Rejected e)"
  by (cases ev)
     (simp_all add: getMeta_rejected downloadDependency_rejected resolveMetaUrl_package_fields
        settleMeta_package_fields settleFile_rejected wellFormed_def)

lemma run_rejected:
  "wellFormed s \<Longrightarrow> packagePromises s h = Some (Rejected e) \<Longrightarrow>
   packagePromises (run x s evs) h = Some (Rejected e)"
  unfolding run_def
  by (induction evs arbitrary: s) (simp_all add: step_rejected step_wellFormed)

lemma retry_after_failure:
  assumes wf: "wellFormed s'"
    and rej: "metaPromises s' h = Some (Rejected e)"
    and gone: "metas s' key = None"
    and al: "resolveNPMAlias name version = Inr (depName, depVersion)"
    and key: "key = metaId packageJSONPath depName depVersion"
    and protocol: "protocol = getFetchProtocol x depVersion useFallback"
  shows "\<exists>h' s''. getMeta x s' name packageJSONPath version useFallback = (Inr h', s'') \<and>
           h' \<noteq> h \<and> metas s'' key = Some h' \<and> metaInFlight s'' h' key \<and>
           metaPromises s'' h = Some (Rejected e) \<and>
           metaChainRequests s'' =
             metaChainRequests s' @
               (if protocol = jsDelivrNPM \<and> \<not> startsWithDigit depVersion then []
                else if protocol = jsDelivrGH then [ShaRequest h' depVersion]
                else [MetaRequest h' protocol (stripAlias depName) depVersion]) \<and>
           (\<forall>dn dv p e'.
              protocol = jsDelivrNPM \<and> \<not> startsWithDigit depVersion \<and>
              resolveNPMAlias (stripAlias depName) depVersion = Inr (dn, dv) \<and>
              packages s' (dn @ dv @ ''/package.json'') = Some p \<and>
              packagePromises s' p = Some (Rejected e') \<longrightarrow>
                requests s'' = requests s' \<and>
                (\<forall>answer. resolveMetaUrl s'' h' answer = rejectMeta s'' h' key e') \<and>
                (\<forall>later. metaRequestsOf (run x s'' later) h' = []))"
proof -
  have fr: "fresh s'" using wf by (simp add: wellFormed_def)
  have lt: "h < nextHandle s'"
    using fr rej by (auto simp: fresh_def not_le[symmetric])
  have none: "metas s' (metaId packageJSONPath depName depVersion) = None"
    using gone key by simp
  from getMeta_miss[OF al none protocol]
  obtain h' s'' where call: "getMeta x s' name packageJSONPath version useFallback = (Inr h', s'')"
    and le: "nextHandle s' \<le> h'"
    and stored: "metas s'' (metaId packageJSONPath depName depVersion) = Some h'"
    and fl: "metaInFlight s'' h' (metaId packageJSONPath depName depVersion)"
    and old: "\<forall>h0. h0 < nextHandle s' \<longrightarrow> metaPromises s'' h0 = metaPromises s' h0"
    and sent: "metaChainRequests s'' =
             metaChainRequests s' @
               (if protocol = jsDelivrNPM \<and> \<not> startsWithDigit depVersion then []
                else if protocol = jsDelivrGH then [ShaRequest h' depVersion]
                else [MetaRequest h' protocol (stripAlias depName) depVersion])"
    by (elim exE conjE) (rule that)
  have c2: "h' \<noteq> h" using le lt by simp
  have c3: "metas s'' key = Some h'" using stored key by simp
  have c4: "metaInFlight s'' h' key" using fl key by simp
  have c5: "metaPromises s'' h = Some (Rejected e)" using old lt rej by simp
  have wf2: "wellFormed s''"
    using getMeta_wellFormed[OF wf, of x name packageJSONPath version useFallback] call by simp
  have c7: "\<forall>dn dv p e'.
              protocol = jsDelivrNPM \<and> \<not> startsWithDigit depVersion \<and>
              resolveNPMAlias (stripAlias depName) depVersion = Inr (dn, dv) \<and>
              packages s' (dn @ dv @ ''/package.json'') = Some p \<and>
              packagePromises s' p = Some (Rejected e') \<longrightarrow>
                requests s'' = requests s' \<and>
                (\<forall>answer. resolveMetaUrl s'' h' answer = rejectMeta s'' h' key e') \<and>
                (\<forall>later. metaRequestsOf (run x s'' later) h' = [])"
  proof (intro allI impI)
    fix dn dv p e'
    assume a: "protocol = jsDelivrNPM \<and> \<not> startsWithDigit depVersion \<and>
              resolveNPMAlias (stripAlias depName) depVersion = Inr (dn, dv) \<and>
              packages s' (dn @ dv @ ''/package.json'') = Some p \<and>
              packagePromises s' p = Some (Rejected e')"
    then have tag: "getFetchProtocol x depVersion useFallback = jsDelivrNPM"
        "\<not> startsWithDigit depVersion"
      and al2: "resolveNPMAlias (stripAlias depName) depVersion = Inr (dn, dv)"
      and there: "packages s' (dn @ dv @ ''/package.json'') = Some p"
      and failed: "packagePromises s' p = Some (Rejected e')"
      using protocol by simp_all
    have d: "downloadDependency x s' (stripAlias depName) depVersion ''/package.json'' = (Inr p, s')"
      using al2 there by (simp add: downloadDependency_def)
    let ?stage = "AwaitingManifest (stripAlias depName) (Inr p)"
    have "getMeta x s' name packageJSONPath version useFallback = startMeta s' key ?stage []"
      using getMeta_miss_tag[OF al none tag] d key by simp
    with call have h': "h' = nextHandle s'" and s'': "s'' = snd (startMeta s' key ?stage [])"
      using startMeta_eq[of s' key ?stage "[]"] by simp_all
    have r: "requests s'' = requests s'"
      unfolding s'' by (simp add: startMeta_fields)
    have stage: "metaStages s'' h' = Some ?stage" "metaIds s'' h' = Some key"
      "metaPromises s'' h' = Some Pending" "packagePromises s'' p = Some (Rejected e')"
      unfolding s'' h' using failed by (simp_all add: startMeta_fields)
    have again: "resolveMetaUrl s'' h' answer = rejectMeta s'' h' key e'" for answer
      using stage by (simp add: resolveMetaUrl_def)
    have "Some h' \<notin> requestHandle ` set (requests s')"
      using fr h' by (simp add: fresh_def)
    then have "metaRequestsOf s'' h' = []"
      unfolding metaRequestsOf_def r by (auto simp: filter_empty_conv image_iff)
    then have never: "metaRequestsOf (run x s'' later) h' = []" for later
      using stalled_run[OF wf2 stage(1) stage(4)] by simp
    show "requests s'' = requests s' \<and>
          (\<forall>answer. resolveMetaUrl s'' h' answer = rejectMeta s'' h' key e') \<and>
          (\<forall>later. metaRequestsOf (run x s'' later) h' = [])"
      using r again never by (intro conjI allI)
  qed
  show ?thesis
    by (rule exI[of _ h'], rule exI[of _ s''])
       (rule conjI[OF call conjI[OF c2 conjI[OF c3 conjI[OF c4 conjI[OF c5 conjI[OF sent c7]]]]]])
qed

text \<open>
  C1, amended. In every state the caches can reach from the empty ones: when a metadata
  chain in flight fails at some event, the entry of its key is removed from \<^verbatim>\<open>metas\<close>,
  and the next \<^verbatim>\<open>getMeta\<close> call with that key does not return the rejected promise: it
  starts a new chain, in flight under the key. The new chain sends the request for the
  document with the call, but for \<^verbatim>\<open>jsDelivrGH\<close> it first sends the lookup of the latest
  commit, and for \<^verbatim>\<open>jsDelivrNPM\<close> with a version that does not start with a digit it
  sends nothing and awaits the download of \<^verbatim>\<open>/package.json\<close>: when that download is in
  \<^verbatim>\<open>packages\<close> with a rejected promise, the call sends no request at all, the new
  chain fails with the error of the download as soon as it goes on, and it never sends
  a request for the document. When a download fails for good (the fallback request has
  failed too), the entry stays in \<^verbatim>\<open>packages\<close>, and from then on every
  \<^verbatim>\<open>downloadDependency\<close> call with that key returns the stored, rejected promise and
  sends nothing.
\<close>

theorem failed_fetch_cache_entries:
  assumes "s = run x emptyStore evs"
  shows "(metaInFlight s h key \<and> s' = step x s ev \<and>
          metaPromises s' h = Some (Rejected e) \<and>
          resolveNPMAlias name version = Inr (depName, depVersion) \<and>
          key = metaId packageJSONPath depName depVersion \<and>
          protocol = getFetchProtocol x depVersion useFallback \<longrightarrow>
            metas s' key = None \<and>
            (\<exists>h' s''. getMeta x s' name packageJSONPath version useFallback = (Inr h', s'') \<and>
               h' \<noteq> h \<and> metas s'' key = Some h' \<and> metaInFlight s'' h' key \<and>
               metaPromises s'' h = Some (Rejected e) \<and>
               metaChainRequests s'' =
                 metaChainRequests s' @
                   (if protocol = jsDelivrNPM \<and> \<not> startsWithDigit depVersion then []
                    else if protocol = jsDelivrGH then [ShaRequest h' depVersion]
                    else [MetaRequest h' protocol (stripAlias depName) depVersion]) \<and>
               (\<forall>dn dv p e'.
                  protocol = jsDelivrNPM \<and> \<not> startsWithDigit depVersion \<and>
                  resolveNPMAlias (stripAlias depName) depVersion = Inr (dn, dv) \<and>
                  packages s' (dn @ dv @ ''/package.json'') = Some p \<and>
                  packagePromises s' p = Some (Rejected e') \<longrightarrow>
                    requests s'' = requests s' \<and>
                    (\<forall>answer. resolveMetaUrl s'' h' answer = rejectMeta s'' h' key e') \<and>
                    (\<forall>later. metaRequestsOf (run x s'' later) h' = [])))) \<and>
         (packages s (fName @ fVersion @ path) = Some g \<and> fileChains s g = Some c \<and>
          fc_stage c = Fallback \<and> packagePromises s g = Some Pending \<and>
          resolveNPMAlias fileName fileVersion = Inr (fName, fVersion) \<longrightarrow>
            (\<forall>later.
               packages (run x (settleFile x s g (Inl failure)) later) (fName @ fVersion @ path)
                 = Some g \<and>
               packagePromises (run x (settleFile x s g (Inl failure)) later) g
                 = Some (Rejected failure) \<and>
               downloadDependency x (run x (settleFile x s g (Inl failure)) later)
                   fileName fileVersion path
                 = (Inr g, run x (settleFile x s g (Inl failure)) later)))"
proof -
  have wf: "wellFormed s" using assms reachable_wellFormed by simp
  have m: "metaInFlight s h key \<and> s' = step x s ev \<and>
          metaPromises s' h = Some (Rejected e) \<and>
          resolveNPMAlias name version = Inr (depName, depVersion) \<and>
          key = metaId packageJSONPath depName depVersion \<and>
          protocol = getFetchProtocol x depVersion useFallback \<longrightarrow>
            metas s' key = None \<and>
            (\<exists>h' s''. getMeta x s' name packageJSONPath version useFallback = (Inr h', s'') \<and>
               h' \<noteq> h \<and> metas s'' key = Some h' \<and> metaInFlight s'' h' key \<and>
               metaPromises s'' h = Some (Rejected e) \<and>
               metaChainRequests s'' =
                 metaChainRequests s' @
                   (if protocol = jsDelivrNPM \<and> \<not> startsWithDigit depVersion then []
                    else if protocol = jsDelivrGH then [ShaRequest h' depVersion]
                    else [MetaRequest h' protocol (stripAlias depName) depVersion]) \<and>
               (\<forall>dn dv p e'.
                  protocol = jsDelivrNPM \<and> \<not> startsWithDigit depVersion \<and>
                  resolveNPMAlias (stripAlias depName) depVersion = Inr (dn, dv) \<and>
                  packages s' (dn @ dv @ ''/package.json'') = Some p \<and>
                  packagePromises s' p = Some (Rejected e') \<longrightarrow>
                    requests s'' = requests s' \<and>
                    (\<forall>answer. resolveMetaUrl s'' h' answer = rejectMeta s'' h' key e') \<and>
                    (\<forall>later. metaRequestsOf (run x s'' later) h' = [])))"
  proof (rule impI)
    assume a: "metaInFlight s h key \<and> s' = step x s ev \<and>
          metaPromises s' h = Some (Rejected e) \<and>
          resolveNPMAlias name version = Inr (depName, depVersion) \<and>
          key = metaId packageJSONPath depName depVersion \<and>
          protocol = getFetchProtocol x depVersion useFallback"
    from a have fl: "metaInFlight s h key" and s': "s' = step x s ev"
      and rej: "metaPromises s' h = Some (Rejected e)"
      and al: "resolveNPMAlias name version = Inr (depName, depVersion)"
      and key: "key = metaId packageJSONPath depName depVersion"
      and protocol: "protocol = getFetchProtocol x depVersion useFallback"
      by blast+
    have wf': "wellFormed s'" unfolding s' using wf by (rule step_wellFormed)
    have gone: "metas s' key = None"
      using step_rejects[OF wf fl] rej unfolding s' by simp
    show "metas s' key = None \<and>
            (\<exists>h' s''. getMeta x s' name packageJSONPath version useFallback = (Inr h', s'') \<and>
               h' \<noteq> h \<and> metas s'' key = Some h' \<and> metaInFlight s'' h' key \<and>
               metaPromises s'' h = Some (Rejected e) \<and>
               metaChainRequests s'' =
                 metaChainRequests s' @
                   (if protocol = jsDelivrNPM \<and> \<not> startsWithDigit depVersion then []
                    else if protocol = jsDelivrGH then [ShaRequest h' depVersion]
                    else [MetaRequest h' protocol (stripAlias depName) depVersion]) \<and>
               (\<forall>dn dv p e'.
                  protocol = jsDelivrNPM \<and> \<not> startsWithDigit depVersion \<and>
                  resolveNPMAlias (stripAlias depName) depVersion = Inr (dn, dv) \<and>
                  packages s' (dn @ dv @ ''/package.json'') = Some p \<and>
                  packagePromises s' p = Some (Rejected e') \<longrightarrow>
                    requests s'' = requests s' \<and>
                    (\<forall>answer. resolveMetaUrl s'' h' answer = rejectMeta s'' h' key e') \<and>
                    (\<forall>later. metaRequestsOf (run x s'' later) h' = [])))"
      by (rule conjI[OF gone retry_after_failure[OF wf' rej gone al key protocol]])
  qed
  have f: "packages s (fName @ fVersion @ path) = Some g \<and> fileChains s g = Some c \<and>
          fc_stage c = Fallback \<and> packagePromises s g = Some Pending \<and>
          resolveNPMAlias fileName fileVersion = Inr (fName, fVersion) \<longrightarrow>
            (\<forall>later.
               packages (run x (settleFile x s g (Inl failure)) later) (fName @ fVersion @ path)
                 = Some g \<and>
               packagePromises (run x (settleFile x s g (Inl failure)) later) g
                 = Some (Rejected failure) \<and>
               downloadDependency x (run x (settleFile x s g (Inl failure)) later)
                   fileName fileVersion path
                 = (Inr g, run x (settleFile x s g (Inl failure)) later))"
  proof (intro impI allI)
    fix later
    assume b: "packages s (fName @ fVersion @ path) = Some g \<and> fileChains s g = Some c \<and>
          fc_stage c = Fallback \<and> packagePromises s g = Some Pending \<and>
          resolveNPMAlias fileName fileVersion = Inr (fName, fVersion)"
    let ?s = "settleFile x s g (Inl failure)"
    let ?t = "run x ?s later"
    have eq: "?s = s\<lparr> packagePromises := (packagePromises s)(g \<mapsto> Rejected failure) \<rparr>"
      using b by (simp add: settleFile_last_failure)
    have wfs: "wellFormed ?s" using wf by (rule settleFile_wellFormed)
    have "packages ?s (fName @ fVersion @ path) = Some g" using b by (simp add: eq)
    then have kept: "packages ?t (fName @ fVersion @ path) = Some g" by (rule run_packages)
    have "packagePromises ?s g = Some (Rejected failure)" by (simp add: eq)
    then have rejd: "packagePromises ?t g = Some (Rejected failure)"
      using wfs run_rejected by simp
    have "downloadDependency x ?t fileName fileVersion path = (Inr g, ?t)"
      using b kept by (simp add: downloadDependency_def)
    with kept rejd show "packages ?t (fName @ fVersion @ path) = Some g \<and>
        packagePromises ?t g = Some (Rejected failure) \<and>
        downloadDependency x ?t fileName fileVersion path = (Inr g, ?t)"
      by simp
  qed
  show ?thesis by (rule conjI[OF m f])
qed

lemma firstGetMeta_metas: "metas firstGetMeta ''react@16.0.0'' = Some 0"
  by (simp add: firstGetMeta_def run_def getMeta_def resolveNPMAlias_def metaId_def Let_def
      emptyStore_def startsWithDigit_def isDigit_def startMeta_def getFetchProtocol_def posix_def)

lemma react_alias: "resolveNPMAlias ''react'' ''16.0.0'' = Inr (''react'', ''16.0.0'')"
  by (simp add: resolveNPMAlias_def)

lemma react_key: "''react@16.0.0'' = metaId None ''react'' ''16.0.0''"
  by (simp add: metaId_def)

theorem getMeta_one_request_per_key_witness:
  "getMeta posix firstGetMeta ''react'' None ''16.0.0'' True = (Inr 0, firstGetMeta)"
  using getMeta_one_request_per_key [OF firstGetMeta_def react_alias react_key refl, of True]
    firstGetMeta_metas
  by simp





lemma failedDownload_eval:
  "packages failedDownload (''left-pad'' @ ''1.3.0'' @ leftPadIndex) = Some 0"
  "packagePromises failedDownload 0 =
     Some (Rejected (CouldNotFetchUrl ''https://unpkg.com/left-pad@1.3.0/index.js''))"
  "requests failedDownload =
     [FileRequest jsDelivrNPM ''left-pad'' ''1.3.0'' leftPadIndex,
      FileRequest unpkg ''left-pad'' ''1.3.0'' leftPadIndex]"
  by (simp_all add: failedDownload_def run_def downloadDependency_def resolveNPMAlias_def Let_def
      emptyStore_def settleFile_def getFetchProtocol_def posix_def leftPadIndex_def aliasTail_def
      isDigit_def)

text \<open>
  C1, as stated, fails for the content cache: after a download of
  \<^verbatim>\<open>/node_modules/left-pad/index.js\<close> whose two requests have failed, the entry is still
  in \<^verbatim>\<open>packages\<close>, its promise is rejected, and a call with the same key returns that
  promise and leaves the store as it is.
\<close>

theorem failed_download_stays_cached:
  "packages failedDownload (''left-pad'' @ ''1.3.0'' @ leftPadIndex) = Some 0 \<and>
   packagePromises failedDownload 0 =
     Some (Rejected (CouldNotFetchUrl ''https://unpkg.com/left-pad@1.3.0/index.js'')) \<and>
   downloadDependency posix failedDownload ''left-pad'' ''1.3.0'' leftPadIndex
     = (Inr 0, failedDownload)"
  using failedDownload_eval(1,2)
  by (simp add: downloadDependency_def resolveNPMAlias_def)

lemma pkg_latest:
  "resolveNPMAlias ''pkg'' ''latest'' = Inr (''pkg'', ''latest'')"
  "getFetchProtocol posix ''latest'' False = jsDelivrNPM"
  "getFetchProtocol posix ''latest'' True = unpkg"
  "\<not> startsWithDigit ''latest''"
  "stripAlias ''pkg'' = ''pkg''"
  "metaId None ''pkg'' ''latest'' = ''pkg@latest''"
  by (simp_all add: resolveNPMAlias_def getFetchProtocol_def posix_def startsWithDigit_def
      isDigit_def metaId_def)

lemma tagStart:
  "getMeta posix emptyStore ''pkg'' None ''latest'' False =
     (Inr 1,
      emptyStore\<lparr> packages := [''pkglatest/package.json'' \<mapsto> 0],
                  packagePromises := [0 \<mapsto> Pending],
                  fileChains := [0 \<mapsto> \<lparr> fc_path = ''/package.json'', fc_name = ''pkg'',
                                          fc_version = ''latest'', fc_stage = Primary \<rparr>],
                  requests := [FileRequest jsDelivrNPM ''pkg'' ''latest'' ''/package.json''],
                  nextHandle := 2,
                  metas := [''pkg@latest'' \<mapsto> 1],
                  metaPromises := [1 \<mapsto> Pending],
                  metaIds := [1 \<mapsto> ''pkg@latest''],
                  metaStages := [1 \<mapsto> AwaitingManifest ''pkg'' (Inr 0)] \<rparr>)"
  by (simp add: getMeta_def downloadDependency_def pkg_latest Let_def startMeta_def emptyStore_def)

lemma tagFallbackPending_eval:
  "packages tagFallbackPending (''pkg'' @ ''latest'' @ ''/package.json'') = Some 0"
  "fileChains tagFallbackPending 0 =
     Some \<lparr> fc_path = ''/package.json'', fc_name = ''pkg'', fc_version = ''latest'',
            fc_stage = Fallback \<rparr>"
  "packagePromises tagFallbackPending 0 = Some Pending"
  "metaIds tagFallbackPending 1 = Some ''pkg@latest''"
  "metaPromises tagFallbackPending 1 = Some Pending"
  "metaStages tagFallbackPending 1 = Some (AwaitingManifest ''pkg'' (Inr 0))"
  "metas tagFallbackPending ''pkg@latest'' = Some 1"
  unfolding tagFallbackPending_def run_def foldl.simps step.simps tagStart snd_conv
  by (simp_all add: settleFile_def emptyStore_def)

lemma tagDownloadFailed_eval:
  "packages tagDownloadFailed (''pkg'' @ ''latest'' @ ''/package.json'') = Some 0"
  "packagePromises tagDownloadFailed 0 =
     Some (Rejected (CouldNotFetchUrl ''https://unpkg.com/pkg@latest/package.json''))"
  "metaIds tagDownloadFailed 1 = Some ''pkg@latest''"
  "metaPromises tagDownloadFailed 1 = Some Pending"
  "metaStages tagDownloadFailed 1 = Some (AwaitingManifest ''pkg'' (Inr 0))"
  "metas tagDownloadFailed ''pkg@latest'' = Some 1"
  unfolding tagDownloadFailed_def step.simps
  using tagFallbackPending_eval
  by (simp_all add: settleFile_def)

lemma tagDownloadFailed_run:
  "tagDownloadFailed =
     run posix emptyStore
       [CallGetMeta ''pkg'' None ''latest'' False,
        SettleFile 0 (Inl (CouldNotFetchUrl ''https://cdn.jsdelivr.net/npm/pkg@latest/package.json'')),
        SettleFile 0 (Inl (CouldNotFetchUrl ''https://unpkg.com/pkg@latest/package.json''))]"
  by (simp add: tagDownloadFailed_def tagFallbackPending_def run_def)

lemma tagChainFailed_eval:
  "metaPromises (step posix tagDownloadFailed (ResolveMetaUrl 1 (Inr ''1.0.0''))) 1 =
     Some (Rejected (CouldNotFetchUrl ''https://unpkg.com/pkg@latest/package.json''))"
  "packages (step posix tagDownloadFailed (ResolveMetaUrl 1 (Inr ''1.0.0'')))
     (''pkg'' @ ''latest'' @ ''/package.json'') = Some 0"
  "packagePromises (step posix tagDownloadFailed (ResolveMetaUrl 1 (Inr ''1.0.0''))) 0 =
     Some (Rejected (CouldNotFetchUrl ''https://unpkg.com/pkg@latest/package.json''))"
  using tagDownloadFailed_eval
  by (simp_all add: resolveMetaUrl_def rejectMeta_def)

theorem failed_fetch_cache_entries_witness:
  "metas (step posix tagDownloadFailed (ResolveMetaUrl 1 (Inr ''1.0.0''))) ''pkg@latest'' = None \<and>
   (\<exists>h' s''. getMeta posix (step posix tagDownloadFailed (ResolveMetaUrl 1 (Inr ''1.0.0'')))
                ''pkg'' None ''latest'' False = (Inr h', s'') \<and>
      h' \<noteq> 1 \<and> metaInFlight s'' h' ''pkg@latest'' \<and>
      requests s'' = requests (step posix tagDownloadFailed (ResolveMetaUrl 1 (Inr ''1.0.0''))) \<and>
      resolveMetaUrl s'' h' (Inr ''1.0.0'') =
        rejectMeta s'' h' ''pkg@latest''
          (CouldNotFetchUrl ''https://unpkg.com/pkg@latest/package.json'')) \<and>
   downloadDependency posix tagDownloadFailed ''pkg'' ''latest'' ''/package.json''
     = (Inr 0, tagDownloadFailed)"
proof -
  let ?e = "CouldNotFetchUrl ''https://unpkg.com/pkg@latest/package.json''"
  let ?s' = "step posix tagDownloadFailed (ResolveMetaUrl 1 (Inr ''1.0.0''))"
  have fl: "metaInFlight tagDownloadFailed 1 ''pkg@latest''"
    using tagDownloadFailed_eval by (simp add: metaInFlight_def)
  note meta = failed_fetch_cache_entries [OF tagDownloadFailed_run,
      where h = 1 and key = "''pkg@latest''" and s' = ?s'
        and ev = "ResolveMetaUrl 1 (Inr ''1.0.0'')" and e = ?e
        and name = "''pkg''" and version = "''latest''" and depName = "''pkg''"
        and depVersion = "''latest''" and packageJSONPath = None and protocol = jsDelivrNPM
        and useFallback = False, THEN conjunct1, THEN mp]
  have "metas ?s' ''pkg@latest'' = None \<and>
      (\<exists>h' s''. getMeta posix ?s' ''pkg'' None ''latest'' False = (Inr h', s'') \<and>
         h' \<noteq> 1 \<and> metas s'' ''pkg@latest'' = Some h' \<and> metaInFlight s'' h' ''pkg@latest'' \<and>
         metaPromises s'' 1 = Some (Rejected ?e) \<and>
         metaChainRequests s'' =
           metaChainRequests ?s' @
             (if jsDelivrNPM = jsDelivrNPM \<and> \<not> startsWithDigit ''latest'' then []
              else if jsDelivrNPM = jsDelivrGH then [ShaRequest h' ''latest'']
              else [MetaRequest h' jsDelivrNPM (stripAlias ''pkg'') ''latest'']) \<and>
         (\<forall>dn dv p e'.
            jsDelivrNPM = jsDelivrNPM \<and> \<not> startsWithDigit ''latest'' \<and>
            resolveNPMAlias (stripAlias ''pkg'') ''latest'' = Inr (dn, dv) \<and>
            packages ?s' (dn @ dv @ ''/package.json'') = Some p \<and>
            packagePromises ?s' p = Some (Rejected e') \<longrightarrow>
              requests s'' = requests ?s' \<and>
              (\<forall>answer. resolveMetaUrl s'' h' answer = rejectMeta s'' h' ''pkg@latest'' e') \<and>
              (\<forall>later. metaRequestsOf (run posix s'' later) h' = [])))"
    by (rule meta) (use fl tagChainFailed_eval pkg_latest in simp)
  then obtain h' s'' where gone: "metas ?s' ''pkg@latest'' = None"
    and call: "getMeta posix ?s' ''pkg'' None ''latest'' False = (Inr h', s'')"
    and new: "h' \<noteq> 1" and fl': "metaInFlight s'' h' ''pkg@latest''"
    and tag: "\<forall>dn dv p e'.
            jsDelivrNPM = jsDelivrNPM \<and> \<not> startsWithDigit ''latest'' \<and>
            resolveNPMAlias (stripAlias ''pkg'') ''latest'' = Inr (dn, dv) \<and>
            packages ?s' (dn @ dv @ ''/package.json'') = Some p \<and>
            packagePromises ?s' p = Some (Rejected e') \<longrightarrow>
              requests s'' = requests ?s' \<and>
              (\<forall>answer. resolveMetaUrl s'' h' answer = rejectMeta s'' h' ''pkg@latest'' e') \<and>
              (\<forall>later. metaRequestsOf (run posix s'' later) h' = [])"
    by (elim exE conjE) (rule that)
  have "requests s'' = requests ?s' \<and>
        (\<forall>answer. resolveMetaUrl s'' h' answer = rejectMeta s'' h' ''pkg@latest'' ?e) \<and>
        (\<forall>later. metaRequestsOf (run posix s'' later) h' = [])"
    by (rule tag[THEN spec[of _ "''pkg''"], THEN spec[of _ "''latest''"],
          THEN spec[of _ 0], THEN spec[of _ ?e], THEN mp])
       (use tagChainFailed_eval pkg_latest in simp)
  then have same: "requests s'' = requests ?s'"
    and again: "resolveMetaUrl s'' h' (Inr ''1.0.0'') = rejectMeta s'' h' ''pkg@latest'' ?e"
    by simp_all
  have tagFallbackPending_run: "tagFallbackPending =
     run posix emptyStore
       [CallGetMeta ''pkg'' None ''latest'' False,
        SettleFile 0 (Inl (CouldNotFetchUrl ''https://cdn.jsdelivr.net/npm/pkg@latest/package.json''))]"
    by (rule tagFallbackPending_def)
  note content = failed_fetch_cache_entries [OF tagFallbackPending_run,
      where fName = "''pkg''" and fVersion = "''latest''" and path = "''/package.json''"
        and g = 0 and fileName = "''pkg''" and fileVersion = "''latest''" and failure = ?e
        and c = "\<lparr> fc_path = ''/package.json'', fc_name = ''pkg'', fc_version = ''latest'',
            fc_stage = Fallback \<rparr>",
      THEN conjunct2, THEN mp, THEN spec[of _ "[]"]]
  have "packages (run posix (settleFile posix tagFallbackPending 0 (Inl ?e)) [])
            (''pkg'' @ ''latest'' @ ''/package.json'') = Some 0 \<and>
        packagePromises (run posix (settleFile posix tagFallbackPending 0 (Inl ?e)) []) 0
            = Some (Rejected ?e) \<and>
        downloadDependency posix (run posix (settleFile posix tagFallbackPending 0 (Inl ?e)) [])
            ''pkg'' ''latest'' ''/package.json''
          = (Inr 0, run posix (settleFile posix tagFallbackPending 0 (Inl ?e)) [])"
    by (rule content) (use tagFallbackPending_eval pkg_latest in simp)
  then have dl: "downloadDependency posix tagDownloadFailed ''pkg'' ''latest'' ''/package.json''
     = (Inr 0, tagDownloadFailed)"
    by (simp add: run_Nil tagDownloadFailed_def)
  show ?thesis
    using gone call new fl' same again dl by (intro conjI exI[of _ h'] exI[of _ s''])
qed

subsection \<open>getDependencyVersion\<close>

text \<open>
  C3. In \<^verbatim>\<open>getDependencyVersion\<close>, if the path resolved for
  \<^verbatim>\<open><dependencyName>/package.json\<close> is the join of \<^verbatim>\<open>/node_modules\<close>, the dependency
  name and \<^verbatim>\<open>package.json\<close>, and the dependencies of the root manifest contain that
  name, the version returned is the one the root manifest declares for the name (its
  first entry of that name), whatever the manifest file found contains and whatever
  parsing it gives.
\<close>

theorem getDependencyVersion_root_manifest:
  assumes "resolvePathResult w (join x [dependencyName, ''package.json'']) Map.empty mgr s
             = (Inr foundPackageJSONPath, mgr1, s1)"
    and "foundPackageJSONPath = join x [''/node_modules'', dependencyName, ''package.json'']"
    and "dependencyName \<in> dep_name ` set (dependencies (manifest mgr))"
  shows "\<exists>rootDependency.
           find (\<lambda>dep. dep_name dep = dependencyName) (dependencies (manifest mgr))
             = Some rootDependency \<and>
           rootDependency \<in> set (dependencies (manifest mgr)) \<and>
           dep_name rootDependency = dependencyName \<and>
           getDependencyVersion x w mgr s dependencyName =
             (Some \<lparr> vi_version = Some (dep_version rootDependency),
                     vi_packageJSONPath = Some foundPackageJSONPath \<rparr>, mgr1, s1)"
proof -
  from assms(3) obtain rd where
    rd: "find (\<lambda>dep. dep_name dep = dependencyName) (dependencies (manifest mgr)) = Some rd"
    by (cases "find (\<lambda>dep. dep_name dep = dependencyName) (dependencies (manifest mgr))")
       (auto simp: find_None_iff)
  then have "rd \<in> set (dependencies (manifest mgr))" "dep_name rd = dependencyName"
    by (auto simp: find_Some_iff)
  moreover have "getDependencyVersion x w mgr s dependencyName =
             (Some \<lparr> vi_version = Some (dep_version rd),
                     vi_packageJSONPath = Some foundPackageJSONPath \<rparr>, mgr1, s1)"
    using assms(1,2) rd
    by (simp add: getDependencyVersion_def fromResolvedManifest_def Let_def)
  ultimately show ?thesis using rd by blast
qed

lemma sample_joins:
  "posixJoin [''pkg'', ''package.json''] = ''pkg/package.json''"
  "posixJoin [''/node_modules'', ''pkg'', ''package.json''] = ''/node_modules/pkg/package.json''"
  "posixJoin [''/node_modules'', ''pkg/lib/node''] = ''/node_modules/pkg/lib/node''"
  "posixJoin [''my-react'', ''package.json''] = ''my-react/package.json''"
  by (simp_all add: posixJoin_def posixNormalize_def)

theorem getDependencyVersion_root_manifest_witness:
  "getDependencyVersion posix sampleWorld sampleManager emptyStore ''pkg'' =
     (Some \<lparr> vi_version = Some csbVersion,
             vi_packageJSONPath = Some ''/node_modules/pkg/package.json'' \<rparr>,
      sampleManager, emptyStore)"
proof -
  have 1: "resolvePathResult sampleWorld (join posix [''pkg'', ''package.json'']) Map.empty
             sampleManager emptyStore
           = (Inr ''/node_modules/pkg/package.json'', sampleManager, emptyStore)"
    by (simp add: sampleWorld_def posix_def sample_joins)
  have 2: "''/node_modules/pkg/package.json'' = join posix [''/node_modules'', ''pkg'', ''package.json'']"
    by (simp add: posix_def sample_joins)
  have 3: "''pkg'' \<in> dep_name ` set (dependencies (manifest sampleManager))"
    by (simp add: sampleManager_def)
  from getDependencyVersion_root_manifest [OF 1 2 3] show ?thesis
    by (simp add: sampleManager_def)
qed

subsection \<open>fetchModule\<close>

text \<open>
  C7. When the resolution of the path in \<^verbatim>\<open>fetchModule\<close> yields \<^verbatim>\<open>//empty.js\<close>,
  \<^verbatim>\<open>fetchModule\<close> returns the stub: the code \<^verbatim>\<open>module.exports = {};\<close>, no requires,
  \<^verbatim>\<open>stubbed\<close> true; its path is the join of \<^verbatim>\<open>/node_modules\<close> and the requested path when
  that starts like a package name, and the join of the requesting module's path and
  the requested path otherwise. The manager and the caches are left as the resolution
  left them: no file is downloaded, no request is sent.
\<close>

theorem fetchModule_stub:
  assumes "fetchModuleResolve x w mgr s path = (Inr r, mgr1, s1)"
    and "r_foundPath r = ''//empty.js''"
  shows "fetchModule x w mgr s path currentPath =
           (Inr \<lparr> m_path = (if isDependency path then join x [''/node_modules'', path]
                             else join x [currentPath, path]),
                  m_code = ''module.exports = {};'',
                  m_requires = Some [],
                  m_stubbed = Some True,
                  m_downloaded = None \<rparr>, mgr1, s1) \<and>
         packages (snd (snd (fetchModule x w mgr s path currentPath))) = packages s1 \<and>
         requests (snd (snd (fetchModule x w mgr s path currentPath))) = requests s1"
  using assms by (simp add: fetchModule_def)

lemma stripNodeModules_sample: "stripNodeModules ''pkg/lib/node'' = ''pkg/lib/node''"
  by (subst stripNodeModules.simps) (simp add: isLineTerminator_def)

lemma firstSegments_sample: "firstSegments ''pkg/lib/node'' = ''pkg''"
  by (simp add: firstSegments_def)

lemma posixDirname_sample: "posixDirname ''/node_modules/pkg/package.json'' = ''/node_modules/pkg''"
  by (simp add: posixDirname_def)

lemma sample_protocol: "getFetchProtocol posix csbVersion fb = csbGH"
  by (simp add: getFetchProtocol_def posix_def csbVersion_def)

lemma sample_alias: "resolveNPMAlias n csbVersion = Inr (n, csbVersion)"
  by (simp add: resolveNPMAlias_def csbVersion_def)

lemma sample_getMeta:
  "getMeta posix emptyStore ''pkg'' (Some ''/node_modules/pkg/package.json'') csbVersion False =
     (Inr 0,
      emptyStore\<lparr> metas := [''/node_modules/pkg/package.json@'' @ csbVersion \<mapsto> 0],
                  metaPromises := [0 \<mapsto> Pending],
                  metaIds := [0 \<mapsto> ''/node_modules/pkg/package.json@'' @ csbVersion],
                  metaStages := [0 \<mapsto> Requested],
                  requests := [MetaRequest 0 csbGH ''pkg'' csbVersion],
                  nextHandle := Suc 0 \<rparr>)"
  by (simp add: getMeta_def sample_alias sample_protocol metaId_def emptyStore_def Let_def
      startMeta_def)

lemma sample_version: "getDependencyVersion posix sampleWorld sampleManager emptyStore ''pkg'' =
     (Some \<lparr> vi_version = Some csbVersion,
             vi_packageJSONPath = Some ''/node_modules/pkg/package.json'' \<rparr>,
      sampleManager, emptyStore)"
    by (simp add: getDependencyVersion_def fromResolvedManifest_def sampleWorld_def
        sampleManager_def posix_def sample_joins)

lemma afterMeta_eq:
  "afterMeta =
     emptyStore\<lparr> metas := [''/node_modules/pkg/package.json@'' @ csbVersion \<mapsto> 0],
                  metaPromises := [0 \<mapsto> Fulfilled (Nested [MetaFile ''/index.js'' TypeFile None])],
                  metaIds := [0 \<mapsto> ''/node_modules/pkg/package.json@'' @ csbVersion],
                  metaStages := [0 \<mapsto> Requested],
                  requests := [MetaRequest 0 csbGH ''pkg'' csbVersion],
                  nextHandle := Suc 0 \<rparr>"
  unfolding afterMeta_def awaitGetMeta_def option.case sample_getMeta prod.case sum.case
  by (simp add: awaitMeta_def resolveMetaUrl_def settleMeta_def sampleWorld_def)

lemma sample_awaitGetMeta:
  "awaitGetMeta posix sampleWorld emptyStore ''pkg''
     (Some ''/node_modules/pkg/package.json'') (Some csbVersion) False =
   (Inr (Nested [MetaFile ''/index.js'' TypeFile None]), afterMeta)"
  unfolding afterMeta_def awaitGetMeta_def option.case sample_getMeta prod.case sum.case
  by (simp add: awaitMeta_def resolveMetaUrl_def settleMeta_def sampleWorld_def)

lemma afterMeta_fields:
  "packages afterMeta = Map.empty"
  "requests afterMeta = [MetaRequest 0 csbGH ''pkg'' csbVersion]"
  "normalizedMetas afterMeta = Map.empty"
  unfolding afterMeta_eq by (simp_all add: emptyStore_def)

lemma sample_name: "getDependencyName posix (stripNodeModules ''pkg/lib/node'') = ''pkg''"
  unfolding stripNodeModules_sample by (simp add: posix_def firstSegments_sample)

lemma sample_dirname: "dirname posix ''/node_modules/pkg/package.json'' = ''/node_modules/pkg''"
    by (simp add: posix_def posixDirname_sample)

lemma sample_resolve: "resolvePathResult sampleWorld ''pkg/lib/node'' m mgr s = (Inr ''//empty.js'', mgr, s)"
    by (simp add: sampleWorld_def)

lemma stubResolution_eval:
  "stubResolution =
     (Inr \<lparr> r_dependencyName = ''pkg'', r_version = Some csbVersion,
            r_foundPath = ''//empty.js'' \<rparr>, sampleManager,
      afterMeta\<lparr> normalizedMetas := [''pkg/node_modules/pkg'' \<mapsto>
                     normalizeFiles [MetaFile ''/index.js'' TypeFile None] Map.empty
                       ''/node_modules/pkg''],
                 combinedMetas := combinedMetas afterMeta ++
                     normalizeFiles [MetaFile ''/index.js'' TypeFile None] Map.empty
                       ''/node_modules/pkg'' \<rparr>)"
proof -
  have p: "''pkg'' \<noteq> ''d3-interpolate''" by simp
  show ?thesis
    unfolding stubResolution_def fetchModuleResolve_def sample_name Let_def sample_version
      prod.case option.case
      versionInfo.simps if_not_P[OF p] sample_awaitGetMeta sum.case sample_dirname sample_protocol
      versionText_def afterMeta_fields
    by (simp add: normalizeMeta_def sample_resolve del: normalizeFiles.simps fun_upd_apply)
qed

theorem fetchModule_stub_witness:
  "fst (fetchModule posix sampleWorld sampleManager emptyStore ''pkg/lib/node'' ''/src/index.js'') =
     Inr \<lparr> m_path = ''/node_modules/pkg/lib/node'', m_code = ''module.exports = {};'',
           m_requires = Some [], m_stubbed = Some True, m_downloaded = None \<rparr> \<and>
   packages (snd (snd (fetchModule posix sampleWorld sampleManager emptyStore
                         ''pkg/lib/node'' ''/src/index.js''))) = Map.empty \<and>
   requests (snd (snd (fetchModule posix sampleWorld sampleManager emptyStore
                         ''pkg/lib/node'' ''/src/index.js''))) =
     [MetaRequest 0 csbGH ''pkg'' csbVersion]"
proof -
  have dep: "isDependency ''pkg/lib/node''"
    by (simp add: isDependency_def isWordChar_def)
  have j: "join posix [''/node_modules'', ''pkg/lib/node''] = ''/node_modules/pkg/lib/node''"
    by (simp add: posix_def sample_joins)
  from fetchModule_stub [OF stubResolution_eval [unfolded stubResolution_def], of "''/src/index.js''"]
  show ?thesis
    by (simp add: dep j afterMeta_fields)
qed

lemma alias_error_propagates:
  assumes "\<And>name. resolveNPMAlias name version = Inl e"
  shows "downloadDependency x s name version path = (Inl e, s)"
    and "getMeta x s name packageJSONPath version useFallback = (Inl e, s)"
    and "getDependencyVersion x w mgr s (getDependencyName x (stripNodeModules path))
            = (Some info, mgr1, s1) \<Longrightarrow> vi_version info = Some version \<Longrightarrow>
         fetchModule x w mgr s path currentPath = (Inl e, mgr1, s1)"
proof -
  show "downloadDependency x s name version path = (Inl e, s)"
    by (simp add: downloadDependency_def assms)
  show "getMeta x s name packageJSONPath version useFallback = (Inl e, s)"
    by (simp add: getMeta_def assms)
  have meta: "awaitGetMeta x w s' n pjp (Some version) fb = (Inl e, s')" for s' n pjp fb
    by (simp add: awaitGetMeta_def getMeta_def assms)
  show "fetchModule x w mgr s path currentPath = (Inl e, mgr1, s1)"
    if "getDependencyVersion x w mgr s (getDependencyName x (stripNodeModules path))
            = (Some info, mgr1, s1)" "vi_version info = Some version"
    using that
    by (simp add: fetchModule_def fetchModuleResolve_def Let_def meta)
qed

text \<open>
  C10. For a version \<^verbatim>\<open>npm:<text>\<close> whose text has no \<open>@\<close>, \<^verbatim>\<open>resolveNPMAlias\<close>
  throws a TypeError, and so do its callers: \<^verbatim>\<open>downloadDependency\<close> and \<^verbatim>\<open>getMeta\<close>
  reject and leave the caches alone, and \<^verbatim>\<open>fetchModule\<close> rejects with that error when
  the version found for the dependency is such a version.
\<close>

theorem malformed_alias_throws:
  assumes "CHR ''@'' \<notin> set text"
  shows "resolveNPMAlias name (''npm:'' @ text) = Inl TypeError \<and>
         downloadDependency x s name (''npm:'' @ text) path = (Inl TypeError, s) \<and>
         getMeta x s name packageJSONPath (''npm:'' @ text) useFallback = (Inl TypeError, s) \<and>
         (getDependencyVersion x w mgr s (getDependencyName x (stripNodeModules path))
            = (Some info, mgr1, s1) \<and> vi_version info = Some (''npm:'' @ text) \<longrightarrow>
          fetchModule x w mgr s path currentPath = (Inl TypeError, mgr1, s1))"
proof -
  have "CHR ''@'' \<notin> set (takeWhile (\<lambda>c. \<not> isLineTerminator c) text)"
    using assms set_takeWhileD by fastforce
  then have "matchAlias (''npm:'' @ text) = None"
    by (simp add: matchAlias_def splitLastAt_None)
  then have thrown: "resolveNPMAlias name (''npm:'' @ text) = Inl TypeError" for name
    by (simp add: resolveNPMAlias_def)
  from alias_error_propagates [of "''npm:'' @ text" TypeError, OF thrown] thrown
  show ?thesis by blast
qed

lemma alias_version:
  "getDependencyVersion posix sampleWorld sampleManager emptyStore ''my-react'' =
     (Some \<lparr> vi_version = Some ''npm:react'', vi_packageJSONPath = None \<rparr>,
      sampleManager, emptyStore)"
  by (simp add: getDependencyVersion_def fromResolvedManifest_def fromManifest_def
      sampleWorld_def sampleManager_def posix_def sample_joins csbVersion_def)

lemma alias_name: "getDependencyName posix (stripNodeModules ''my-react'') = ''my-react''"
proof -
  have "stripNodeModules ''my-react'' = ''my-react''"
    by (subst stripNodeModules.simps) (simp add: isLineTerminator_def)
  then show ?thesis by (simp add: posix_def firstSegments_def)
qed

theorem malformed_alias_throws_witness:
  "resolveNPMAlias ''my-react'' ''npm:react'' = Inl TypeError \<and>
   downloadDependency posix emptyStore ''my-react'' ''npm:react'' ''/node_modules/my-react/index.js''
     = (Inl TypeError, emptyStore) \<and>
   fetchModule posix sampleWorld sampleManager emptyStore ''my-react'' ''/src/index.js''
     = (Inl TypeError, sampleManager, emptyStore)"
proof -
  have a: "CHR ''@'' \<notin> set ''react''" by simp
  have v: "getDependencyVersion posix sampleWorld sampleManager emptyStore
             (getDependencyName posix (stripNodeModules ''my-react'')) =
           (Some \<lparr> vi_version = Some ''npm:react'', vi_packageJSONPath = None \<rparr>,
            sampleManager, emptyStore) \<and>
           vi_version \<lparr> vi_version = Some ''npm:react'', vi_packageJSONPath = None \<rparr>
             = Some (''npm:'' @ ''react'')"
    by (simp add: alias_name alias_version)
  have 1: "resolveNPMAlias ''my-react'' (''npm:'' @ ''react'') = Inl TypeError"
    and 2: "downloadDependency posix emptyStore ''my-react'' (''npm:'' @ ''react'')
              ''/node_modules/my-react/index.js'' = (Inl TypeError, emptyStore)"
    using malformed_alias_throws [OF a, where name = "''my-react''" and x = posix
        and s = emptyStore and path = "''/node_modules/my-react/index.js''"]
    by blast+
  have 3: "fetchModule posix sampleWorld sampleManager emptyStore ''my-react'' ''/src/index.js''
     = (Inl TypeError, sampleManager, emptyStore)"
    using malformed_alias_throws [OF a, where x = posix and s = emptyStore
        and w = sampleWorld and mgr = sampleManager and path = "''my-react''"
        and info = "\<lparr> vi_version = Some ''npm:react'', vi_packageJSONPath = None \<rparr>"
        and ?mgr1.0 = sampleManager and ?s1.0 = emptyStore
        and currentPath = "''/src/index.js''"] v
    by blast
  from 1 2 3 show ?thesis by simp
qed

subsection \<open>resolvePath\<close>























end
